theory Spec2Isabelle
  imports Complex_Main "HOL-Library.Multiset"
begin

section \<open>Data model of \<^verbatim>\<open>bench_python.py\<close>\<close>

text \<open>
  Exceptions of the program are values. \<open>WorkloadFailure\<close> stands for any exception
  raised by a capability of the workload module (\<^verbatim>\<open>init\<close>, \<^verbatim>\<open>connect\<close>, the query
  method, \<^verbatim>\<open>load_ids\<close>, \<^verbatim>\<open>close\<close>); the others are the Python exceptions raised by
  the interpreter, by numpy and by \<^verbatim>\<open>concurrent.futures\<close>.
\<close>

datatype error =
    WorkloadFailure
  | AttributeError
  | KeyError
  | IndexError
  | ValueError
  | ZeroDivisionError

text \<open>
  \<^verbatim>\<open>min_latency\<close> starts as \<^verbatim>\<open>float('inf')\<close> and is afterwards an \<^verbatim>\<open>int\<close>: a latency is
  a Python integer or the infinite float. The order is the one of Python's \<^verbatim>\<open><\<close> on
  these values.
\<close>

datatype latency = Finite int | Infinity

instantiation latency :: linorder
begin

fun less_latency :: "latency \<Rightarrow> latency \<Rightarrow> bool" where
  "less_latency (Finite a) (Finite b) = (a < b)"
| "less_latency (Finite a) Infinity = True"
| "less_latency Infinity y = False"

definition less_eq_latency :: "latency \<Rightarrow> latency \<Rightarrow> bool" where
  "less_eq_latency x y = (x < y \<or> x = y)"

instance
proof
  fix x y z :: latency
  show "(x < y) = (x \<le> y \<and> \<not> y \<le> x)"
    by (cases x; cases y) (auto simp: less_eq_latency_def)
  show "x \<le> x"
    by (simp add: less_eq_latency_def)
  show "x \<le> y \<Longrightarrow> y \<le> z \<Longrightarrow> x \<le> z"
    by (cases x; cases y; cases z) (auto simp: less_eq_latency_def)
  show "x \<le> y \<Longrightarrow> y \<le> x \<Longrightarrow> x = y"
    by (cases x; cases y) (auto simp: less_eq_latency_def)
  show "x \<le> y \<or> y \<le> x"
    by (cases x; cases y) (auto simp: less_eq_latency_def)
qed

end

text \<open>
  The tuple returned by \<^verbatim>\<open>run_benchmark_method\<close>:
  \<^verbatim>\<open>(nqueries, latency_stats, min_latency, max_latency)\<close>. The numpy array of counters
  holds float64 values that are whole numbers; they are modelled as integers (exact below
  \<open>2^53\<close> increments). \<^verbatim>\<open>max_latency\<close> is \<^verbatim>\<open>0.0\<close> or an \<^verbatim>\<open>int\<close>, a number either way.
\<close>

type_synonym raw_worker_result = "int \<times> int list \<times> latency \<times> int"

text \<open>The named tuple \<^verbatim>\<open>Result\<close>. \<^verbatim>\<open>latency_stats\<close> is \<^verbatim>\<open>None\<close> or an array.\<close>

record result =
  benchmark :: string
  queryname :: string
  nqueries :: int
  duration :: int
  min_latency :: latency
  max_latency :: int
  latency_stats :: "int list option"

text \<open>
  The fields of \<^verbatim>\<open>ctx\<close> that the program reads. \<^verbatim>\<open>timeout\<close> may be an integer or a
  finite float, both rationals.
\<close>

record bench_ctx =
  concurrency :: int
  warmup_time :: int
  ctx_duration :: int
  timeout :: rat
  queries :: "string list"

text \<open>
  One call of the query method as the worker observes it: it returns after
  \<^verbatim>\<open>time.monotonic_ns() - req_start\<close> nanoseconds, or it raises.
\<close>

datatype call = Returns int | Raises

text \<open>
  What one worker meets outside the program: whether \<^verbatim>\<open>init\<close> exists and raises,
  whether the module lacks the query method, whether \<^verbatim>\<open>connect\<close> and \<^verbatim>\<open>close\<close> raise,
  and the calls made while the warmup clock and the measuring clock were running. The
  two \<^verbatim>\<open>while\<close> loops are driven by the wall clock; the lists are the iterations that
  the clock allowed.
\<close>

record worker_world =
  init_raises :: bool
  method_missing :: bool
  connect_raises :: bool
  warmup_calls :: "call list"
  measured_calls :: "call list"
  close_raises :: bool

section \<open>numpy operations used by the program\<close>

text \<open>\<^verbatim>\<open>np.zeros((n,))\<close>: a negative dimension raises \<^verbatim>\<open>ValueError\<close>.\<close>

definition np_zeros :: "int \<Rightarrow> error + int list" where
  "np_zeros n = (if n < 0 then Inl ValueError else Inr (replicate (nat n) 0))"

text \<open>
  \<^verbatim>\<open>a[i] += 1\<close> on a one-dimensional array: a negative index counts from the end, an index
  outside \<open>[-len, len)\<close> raises \<^verbatim>\<open>IndexError\<close>.
\<close>

definition np_incr :: "int list \<Rightarrow> int \<Rightarrow> error + int list" where
  "np_incr a i =
     (let n = int (length a); j = (if i < 0 then i + n else i)
      in if 0 \<le> j \<and> j < n then Inr (a[nat j := a ! nat j + 1]) else Inl IndexError)"

text \<open>
  \<^verbatim>\<open>np.add(a, b)\<close> on one-dimensional arrays: elementwise on equal shapes; an array of
  length one is broadcast against the other; any other pair of shapes raises
  \<^verbatim>\<open>ValueError\<close> (operands could not be broadcast together).
\<close>

definition np_add :: "int list \<Rightarrow> int list \<Rightarrow> error + int list" where
  "np_add a b =
     (if length a = length b then Inr (map2 (+) a b)
      else if length a = 1 then Inr (map (\<lambda>y. hd a + y) b)
      else if length b = 1 then Inr (map (\<lambda>x. x + hd b) a)
      else Inl ValueError)"

section \<open>The worker loop: \<^verbatim>\<open>run_benchmark_method\<close>\<close>

text \<open>\<^verbatim>\<open>math.ceil(ctx.timeout) * 100 * 1000 + 1\<close>\<close>

definition hist_len :: "rat \<Rightarrow> int" where
  "hist_len tmo = \<lceil>tmo\<rceil> * 100 * 1000 + 1"

text \<open>
  The warmup loop: \<^verbatim>\<open>random.choice(ids)\<close> raises \<^verbatim>\<open>IndexError\<close> on an empty sequence;
  the call is made and its timing is not looked at.
\<close>

fun warmup_phase :: "'id list \<Rightarrow> call list \<Rightarrow> error + unit" where
  "warmup_phase ids [] = Inr ()"
| "warmup_phase ids (c # cs) =
     (if ids = [] then Inl IndexError
      else case c of
             Raises \<Rightarrow> Inl WorkloadFailure
           | Returns t \<Rightarrow> warmup_phase ids cs)"

text \<open>
  The body of the measured loop after the call has returned in \<open>t\<close> nanoseconds
  (lines 64 to 75), on the state \<^verbatim>\<open>(nqueries, latency_stats, min_latency, max_latency)\<close>.
\<close>

definition record_call :: "int \<Rightarrow> int \<Rightarrow> raw_worker_result \<Rightarrow> error + raw_worker_result" where
  "record_call max_req_time t st =
     (case st of (nq, stats, mn, mx) \<Rightarrow>
        let req_time = t div 10000;
            mx' = (if req_time > mx then req_time else mx);
            mn' = (if Finite req_time < mn then Finite req_time else mn);
            req_time' = (if req_time > max_req_time then max_req_time else req_time)
        in case np_incr stats req_time' of
             Inl e \<Rightarrow> Inl e
           | Inr stats' \<Rightarrow> Inr (nq + 1, stats', mn', mx'))"

fun measured_phase ::
  "'id list \<Rightarrow> int \<Rightarrow> call list \<Rightarrow> raw_worker_result \<Rightarrow> error + raw_worker_result" where
  "measured_phase ids max_req_time [] st = Inr st"
| "measured_phase ids max_req_time (c # cs) st =
     (if ids = [] then Inl IndexError
      else case c of
             Raises \<Rightarrow> Inl WorkloadFailure
           | Returns t \<Rightarrow>
               (case record_call max_req_time t st of
                  Inl e \<Rightarrow> Inl e
                | Inr st' \<Rightarrow> measured_phase ids max_req_time cs st'))"

text \<open>The \<^verbatim>\<open>try\<close> block of \<^verbatim>\<open>run_benchmark_method\<close> (lines 46 to 77).\<close>

definition worker_body :: "bench_ctx \<Rightarrow> 'id list \<Rightarrow> worker_world \<Rightarrow> error + raw_worker_result" where
  "worker_body ctx ids w =
     (case np_zeros (hist_len (timeout ctx)) of
        Inl e \<Rightarrow> Inl e
      | Inr stats \<Rightarrow>
          (case warmup_phase ids (warmup_calls w) of
             Inl e \<Rightarrow> Inl e
           | Inr u \<Rightarrow>
               measured_phase ids (int (length stats) - 1) (measured_calls w)
                 (0, stats, Infinity, 0)))"

text \<open>
  \<^verbatim>\<open>run_benchmark_method(ctx, benchname, ids, queryname)\<close>. The benchmark name and the
  query name select the module and the method, whose behaviour is the \<open>worker_world\<close>; the
  benchmark name is taken to be registered in \<^verbatim>\<open>_shared.BENCHMARKS\<close>, and
  \<^verbatim>\<open>getattr(queries_mod, queryname)\<close> raises \<^verbatim>\<open>AttributeError\<close> when the module has no such
  method. In \<^verbatim>\<open>try ... finally\<close> the connection is closed on every path, and an exception
  of \<^verbatim>\<open>close\<close> replaces the outcome of the block. \<^verbatim>\<open>run_async_benchmark_method\<close> has the
  same body, with the calls of the workload awaited.
\<close>

definition run_benchmark_method ::
  "bench_ctx \<Rightarrow> 'id list \<Rightarrow> worker_world \<Rightarrow> error + raw_worker_result" where
  "run_benchmark_method ctx ids w =
     (if init_raises w then Inl WorkloadFailure
      else if method_missing w then Inl AttributeError
      else if connect_raises w then Inl WorkloadFailure
      else let r = worker_body ctx ids w
           in if close_raises w then Inl WorkloadFailure else r)"

section \<open>The aggregator: \<^verbatim>\<open>agg_results\<close>\<close>

text \<open>
  The \<^verbatim>\<open>for\<close> loop of \<^verbatim>\<open>agg_results\<close> on the state
  \<^verbatim>\<open>(min_latency, max_latency, nqueries, latency_stats)\<close>.
\<close>

fun agg_loop ::
  "raw_worker_result list \<Rightarrow> latency \<times> int \<times> int \<times> int list option \<Rightarrow>
   error + latency \<times> int \<times> int \<times> int list option" where
  "agg_loop [] st = Inr st"
| "agg_loop ((t_nqueries, t_latency_stats, t_min_latency, t_max_latency) # rs)
       (mn, mx, nq, ls) =
     (case (case ls of None \<Rightarrow> Inr t_latency_stats
                     | Some a \<Rightarrow> np_add a t_latency_stats) of
        Inl e \<Rightarrow> Inl e
      | Inr ls' \<Rightarrow>
          agg_loop rs
            (if t_min_latency < mn then t_min_latency else mn,
             if t_max_latency > mx then t_max_latency else mx,
             nq + t_nqueries,
             Some ls'))"

definition agg_results ::
  "raw_worker_result list \<Rightarrow> string \<Rightarrow> string \<Rightarrow> int \<Rightarrow> error + result" where
  "agg_results results benchname qname dur =
     (case agg_loop results (Infinity, 0, 0, None) of
        Inl e \<Rightarrow> Inl e
      | Inr (mn, mx, nq, ls) \<Rightarrow>
          Inr \<lparr>benchmark = benchname, queryname = qname, nqueries = nq, duration = dur,
               min_latency = mn, max_latency = mx, latency_stats = ls\<rparr>)"

text \<open>Projections of the worker's tuple, for stating properties.\<close>

definition raw_nqueries :: "raw_worker_result \<Rightarrow> int" where
  "raw_nqueries r = (case r of (nq, stats, mn, mx) \<Rightarrow> nq)"

definition raw_stats :: "raw_worker_result \<Rightarrow> int list" where
  "raw_stats r = (case r of (nq, stats, mn, mx) \<Rightarrow> stats)"

definition raw_min :: "raw_worker_result \<Rightarrow> latency" where
  "raw_min r = (case r of (nq, stats, mn, mx) \<Rightarrow> mn)"

definition raw_max :: "raw_worker_result \<Rightarrow> int" where
  "raw_max r = (case r of (nq, stats, mn, mx) \<Rightarrow> mx)"

section \<open>The dispatcher: \<^verbatim>\<open>run_benchmark_sync\<close>\<close>

text \<open>
  \<^verbatim>\<open>[fut.result() for fut in futures.wait(tasks).done]\<close>: \<^verbatim>\<open>result()\<close> raises again what
  the worker raised, so the first failed future in the iteration ends the comprehension.
\<close>

fun collect_results :: "(error + 'a) list \<Rightarrow> error + 'a list" where
  "collect_results [] = Inr []"
| "collect_results (x # xs) =
     (case x of
        Inl e \<Rightarrow> Inl e
      | Inr v \<Rightarrow> (case collect_results xs of Inl e \<Rightarrow> Inl e | Inr vs \<Rightarrow> Inr (v # vs)))"

text \<open>
  \<^verbatim>\<open>run_benchmark_sync(ctx, benchname, duration, ids, queryname)\<close>. \<^verbatim>\<open>ids[queryname]\<close>
  raises \<^verbatim>\<open>KeyError\<close> on a missing key; \<^verbatim>\<open>ProcessPoolExecutor(max_workers=n)\<close> raises
  \<^verbatim>\<open>ValueError\<close> for \<open>n \<le> 0\<close>. \<open>ws i\<close> is what the \<open>i\<close>-th future of the \<^verbatim>\<open>done\<close> set met.
\<close>

definition run_benchmark_sync ::
  "bench_ctx \<Rightarrow> string \<Rightarrow> int \<Rightarrow> (string \<rightharpoonup> 'id list) \<Rightarrow> string \<Rightarrow> (nat \<Rightarrow> worker_world) \<Rightarrow>
   error + result" where
  "run_benchmark_sync ctx benchname dur ids qname ws =
     (case ids qname of
        None \<Rightarrow> Inl KeyError
      | Some method_ids \<Rightarrow>
          if concurrency ctx \<le> 0 then Inl ValueError
          else case collect_results
                      (map (\<lambda>i. run_benchmark_method ctx method_ids (ws i))
                         [0..<nat (concurrency ctx)]) of
                 Inl e \<Rightarrow> Inl e
               | Inr results \<Rightarrow> agg_results results benchname qname dur)"

section \<open>The benchmark runner: \<^verbatim>\<open>print_result\<close> and \<^verbatim>\<open>run_sync\<close>\<close>

text \<open>
  The lines that \<^verbatim>\<open>print_result\<close> writes, each with the values it formats.
\<close>

datatype line =
    Header string string
  | Queries int
  | Qps int
  | MinLatency latency
  | MaxLatency int
  | Blank

text \<open>
  \<^verbatim>\<open>print_result(ctx, result)\<close>: the lines written, and how the function ends. The third
  \<^verbatim>\<open>print\<close> evaluates \<^verbatim>\<open>result.nqueries // ctx.duration\<close>, which raises
  \<^verbatim>\<open>ZeroDivisionError\<close> when \<^verbatim>\<open>ctx.duration\<close> is zero, after two lines are out.
\<close>

definition print_result :: "bench_ctx \<Rightarrow> result \<Rightarrow> line list \<times> (error + unit)" where
  "print_result ctx res =
     (if ctx_duration ctx = 0
      then ([Header (benchmark res) (queryname res), Queries (nqueries res)],
            Inl ZeroDivisionError)
      else ([Header (benchmark res) (queryname res), Queries (nqueries res),
             Qps (nqueries res div ctx_duration ctx),
             MinLatency (min_latency res), MaxLatency (max_latency res), Blank],
            Inr ()))"

text \<open>
  What \<^verbatim>\<open>run_sync\<close> does that can be seen from outside: it starts the workers of a query,
  and it prints a line.
\<close>

datatype event = Dispatched string | Printed line

text \<open>
  What \<^verbatim>\<open>run_sync\<close> meets outside the program: the bootstrap connection, the loaded ids,
  and for the \<open>k\<close>-th query of \<^verbatim>\<open>ctx.queries\<close> the worlds of its workers.
\<close>

record 'id bench_world =
  boot_connect_raises :: bool
  load_ids_raises :: bool
  boot_close_raises :: bool
  loaded_ids :: "string \<rightharpoonup> 'id list"
  workers :: "nat \<Rightarrow> nat \<Rightarrow> worker_world"

text \<open>
  The \<^verbatim>\<open>for queryname in ctx.queries\<close> loop of \<^verbatim>\<open>run_sync\<close>, from the \<open>k\<close>-th query
  on, with the events so far and the \<^verbatim>\<open>results\<close> list. Nothing in the loop catches an
  exception.
\<close>

fun run_queries ::
  "bench_ctx \<Rightarrow> string \<Rightarrow> (string \<rightharpoonup> 'id list) \<Rightarrow> (nat \<Rightarrow> nat \<Rightarrow> worker_world) \<Rightarrow> nat \<Rightarrow>
   string list \<Rightarrow> event list \<times> result list \<Rightarrow> event list \<times> (error + result list)" where
  "run_queries ctx benchname ids W k [] (out, results) = (out, Inr results)"
| "run_queries ctx benchname ids W k (q # qs) (out, results) =
     (case run_benchmark_sync ctx benchname (ctx_duration ctx) ids q (W k) of
        Inl e \<Rightarrow> (out @ [Dispatched q], Inl e)
      | Inr res \<Rightarrow>
          (case print_result ctx res of
             (ls, Inl e) \<Rightarrow> (out @ Dispatched q # map Printed ls, Inl e)
           | (ls, Inr u) \<Rightarrow>
               run_queries ctx benchname ids W (Suc k) qs
                 (out @ Dispatched q # map Printed ls, results @ [res])))"

definition run_sync ::
  "bench_ctx \<Rightarrow> string \<Rightarrow> 'id bench_world \<Rightarrow> event list \<times> (error + result list)" where
  "run_sync ctx benchname world =
     (if boot_connect_raises world then ([], Inl WorkloadFailure)
      else let loaded = (if load_ids_raises world then Inl WorkloadFailure
                         else Inr (loaded_ids world))
           in if boot_close_raises world then ([], Inl WorkloadFailure)
              else case loaded of
                     Inl e \<Rightarrow> ([], Inl e)
                   | Inr ids \<Rightarrow>
                       run_queries ctx benchname ids (workers world) 0 (queries ctx) ([], []))"

section \<open>Auxiliary notions for the proofs\<close>

text \<open>The latencies, in nanoseconds, of the calls of a trace that returned.\<close>

definition call_times :: "call list \<Rightarrow> int list" where
  "call_times cs = concat (map (\<lambda>c. case c of Returns t \<Rightarrow> [t] | Raises \<Rightarrow> []) cs)"

text \<open>Adding a third array to the outcome of a sum, on either side.\<close>

definition add_then :: "error + int list \<Rightarrow> int list \<Rightarrow> error + int list" where
  "add_then s h = (case s of Inl e \<Rightarrow> Inl e | Inr a \<Rightarrow> np_add a h)"

definition then_add :: "int list \<Rightarrow> error + int list \<Rightarrow> error + int list" where
  "then_add a s = (case s of Inl e \<Rightarrow> Inl e | Inr b \<Rightarrow> np_add a b)"

text \<open>The entry of \<open>a\<close> that broadcasting puts at position \<open>i\<close> of a sum.\<close>

definition bidx :: "int list \<Rightarrow> nat \<Rightarrow> nat" where
  "bidx a i = (if length a = 1 then 0 else i)"

text \<open>
  The histogram component of \<open>agg_loop\<close>, taken alone, and the same loop as a \<open>fold\<close>
  over outcomes.
\<close>

fun stats_loop :: "int list list \<Rightarrow> int list option \<Rightarrow> error + int list option" where
  "stats_loop [] ls = Inr ls"
| "stats_loop (h # hs) ls =
     (case (case ls of None \<Rightarrow> Inr h | Some a \<Rightarrow> np_add a h) of
        Inl e \<Rightarrow> Inl e
      | Inr ls' \<Rightarrow> stats_loop hs (Some ls'))"

definition wrap :: "error + int list \<Rightarrow> error + int list option" where
  "wrap s = (case s of Inl e \<Rightarrow> Inl e | Inr c \<Rightarrow> Inr (Some c))"

definition stats_step :: "int list \<Rightarrow> error + int list option \<Rightarrow> error + int list option" where
  "stats_step h s =
     (case s of
        Inl e \<Rightarrow> Inl e
      | Inr None \<Rightarrow> Inr (Some h)
      | Inr (Some a) \<Rightarrow> wrap (np_add a h))"

text \<open>
  The bucket that the specification names for a latency of \<open>t\<close> nanoseconds in a histogram
  of length \<open>L\<close>: \<open>min(floor(t / 10000), L - 1)\<close>.
\<close>

definition spec_bucket :: "int \<Rightarrow> int \<Rightarrow> nat" where
  "spec_bucket L t = nat (min (t div 10000) (L - 1))"

text \<open>
  Two arrays that \<open>np_add\<close> cannot add: their lengths differ and neither is of length one.
\<close>

definition incompatible :: "int list \<Rightarrow> int list \<Rightarrow> bool" where
  "incompatible a b = (length a \<noteq> length b \<and> length a \<noteq> 1 \<and> length b \<noteq> 1)"

subsection \<open>An example run\<close>

text \<open>
  A run with a timeout of one second and two workers: one makes two measured calls, of 25
  microseconds and of 2 seconds, the other makes none.
\<close>

abbreviation example_ctx :: bench_ctx where
  "example_ctx \<equiv>
     \<lparr>concurrency = 2, warmup_time = 0, ctx_duration = 1, timeout = 1,
      queries = [''get_user'', ''get_movie'']\<rparr>"

abbreviation busy_worker :: worker_world where
  "busy_worker \<equiv>
     \<lparr>init_raises = False, method_missing = False, connect_raises = False,
      warmup_calls = [Returns 400000], measured_calls = [Returns 25000, Returns 2000000000],
      close_raises = False\<rparr>"

abbreviation idle_worker :: worker_world where
  "idle_worker \<equiv>
     \<lparr>init_raises = False, method_missing = False, connect_raises = False,
      warmup_calls = [], measured_calls = [], close_raises = False\<rparr>"

abbreviation busy_result :: raw_worker_result where
  "busy_result \<equiv> (2, (replicate 100001 0)[2 := 1, 100000 := 1], Finite 2, 200000)"

abbreviation idle_result :: raw_worker_result where
  "idle_result \<equiv> (0, replicate 100001 0, Infinity, 0)"

section \<open>The measured loop\<close>

lemma call_times_simps [simp]:
  "call_times [] = []"
  "call_times (Returns t # cs) = t # call_times cs"
  "call_times (Raises # cs) = call_times cs"
  by (simp_all add: call_times_def)

lemma sum_list_incr: "k < length xs \<Longrightarrow> sum_list (xs[k := xs ! k + 1]) = sum_list xs + (1::int)"
  by (induction xs arbitrary: k) (auto split: nat.splits)

lemma np_incr_Inr:
  assumes "np_incr a i = Inr a'"
  shows "sum_list a' = sum_list a + 1" and "length a' = length a"
  using assms by (auto simp: np_incr_def Let_def sum_list_incr split: if_splits)

lemma np_incr_in_range:
  "0 \<le> i \<Longrightarrow> i < int (length a) \<Longrightarrow> np_incr a i = Inr (a[nat i := a ! nat i + 1])"
  by (simp add: np_incr_def)

lemma less_latency_Finite [simp]: "(Finite a \<le> Finite b) = (a \<le> b)"
  by (auto simp: less_eq_latency_def)

lemma le_Infinity [simp]: "x \<le> Infinity"
  by (cases x) (auto simp: less_eq_latency_def)

lemma Infinity_le [simp]: "(Infinity \<le> x) = (x = Infinity)"
  by (cases x) (auto simp: less_eq_latency_def)

lemma record_call_Inr:
  assumes "record_call m t (nq, stats, mn, mx) = Inr (nq', stats', mn', mx')"
  shows "nq' = nq + 1" and "sum_list stats' = sum_list stats + 1"
    and "length stats' = length stats"
    and "mx' = max mx (t div 10000)" and "mn' = min mn (Finite (t div 10000))"
  using assms
  by (auto simp: record_call_def Let_def max_def min_def split: sum.splits dest: np_incr_Inr)

lemma measured_phase_times:
  "measured_phase ids m cs st = Inr st' \<Longrightarrow> cs = map Returns (call_times cs)"
proof (induction cs arbitrary: st)
  case Nil
  then show ?case by simp
next
  case (Cons c cs)
  then show ?case
    by (cases c) (auto split: if_splits sum.splits)
qed

lemma measured_phase_counts:
  assumes "measured_phase ids m cs (nq, stats, mn, mx) = Inr (nq', stats', mn', mx')"
  shows "nq' = nq + int (length cs)"
    and "sum_list stats' = sum_list stats + int (length cs)"
    and "length stats' = length stats"
  using assms
proof (induction cs arbitrary: nq stats mn mx)
  case Nil
  { case 1 then show ?case by simp }
  { case 2 then show ?case by simp }
  { case 3 then show ?case by simp }
next
  case (Cons c cs)
  { case 1 then show ?case
      by (cases c) (auto split: if_splits sum.splits dest!: record_call_Inr(1) Cons.IH(1)) }
  { case 2 then show ?case
      by (cases c) (auto split: if_splits sum.splits dest!: record_call_Inr(2) Cons.IH(2)) }
  { case 3 then show ?case
      by (cases c) (auto split: if_splits sum.splits dest!: record_call_Inr(3) Cons.IH(3)) }
qed

lemma measured_phase_minmax:
  "measured_phase ids m cs (nq, stats, mn, mx) = Inr (nq', stats', mn', mx') \<Longrightarrow>
   mx' = fold (\<lambda>t a. max a (t div 10000)) (call_times cs) mx \<and>
   mn' = fold (\<lambda>t a. min a (Finite (t div 10000))) (call_times cs) mn"
proof (induction cs arbitrary: nq stats mn mx)
  case Nil
  then show ?case by simp
next
  case (Cons c cs)
  show ?case
  proof (cases c)
    case (Returns t)
    with Cons.prems obtain st where st: "record_call m t (nq, stats, mn, mx) = Inr st"
      and rest: "measured_phase ids m cs st = Inr (nq', stats', mn', mx')"
      by (auto split: if_splits sum.splits)
    obtain nq1 stats1 mn1 mx1 where st_eq: "st = (nq1, stats1, mn1, mx1)"
      by (cases st) auto
    from st st_eq have "mx1 = max mx (t div 10000)" "mn1 = min mn (Finite (t div 10000))"
      by (auto dest: record_call_Inr)
    with Cons.IH[OF rest[unfolded st_eq]] Returns show ?thesis by simp
  next
    case Raises
    with Cons.prems show ?thesis by (auto split: if_splits)
  qed
qed

lemma fold_max_props:
  fixes f :: "'a \<Rightarrow> 'b::linorder"
  shows "a \<le> fold (\<lambda>t a. max a (f t)) ts a"
    and "\<forall>t\<in>set ts. f t \<le> fold (\<lambda>t a. max a (f t)) ts a"
    and "fold (\<lambda>t a. max a (f t)) ts a = a \<or> fold (\<lambda>t a. max a (f t)) ts a \<in> f ` set ts"
proof (induction ts arbitrary: a)
  case Nil
  { case 1 show ?case by simp }
  { case 2 show ?case by simp }
  { case 3 show ?case by simp }
next
  case (Cons t ts)
  { case 1 show ?case using Cons.IH(1)[of "max a (f t)"] by simp }
  { case 2 show ?case using Cons.IH(1)[of "max a (f t)"] Cons.IH(2)[of "max a (f t)"] by auto }
  { case 3 show ?case using Cons.IH(3)[of "max a (f t)"] by (auto simp: max_def) }
qed

lemma fold_min_props:
  fixes f :: "'a \<Rightarrow> 'b::linorder"
  shows "fold (\<lambda>t a. min a (f t)) ts a \<le> a"
    and "\<forall>t\<in>set ts. fold (\<lambda>t a. min a (f t)) ts a \<le> f t"
    and "fold (\<lambda>t a. min a (f t)) ts a = a \<or> fold (\<lambda>t a. min a (f t)) ts a \<in> f ` set ts"
proof (induction ts arbitrary: a)
  case Nil
  { case 1 show ?case by simp }
  { case 2 show ?case by simp }
  { case 3 show ?case by simp }
next
  case (Cons t ts)
  { case 1 show ?case using Cons.IH(1)[of "min a (f t)"] by simp }
  { case 2 show ?case using Cons.IH(1)[of "min a (f t)"] Cons.IH(2)[of "min a (f t)"] by auto }
  { case 3 show ?case using Cons.IH(3)[of "min a (f t)"] by (auto simp: min_def) }
qed

lemma fold_max_eq_Max:
  fixes f :: "'a \<Rightarrow> 'b::linorder"
  shows "fold (\<lambda>t a. max a (f t)) ts a = Max (insert a (f ` set ts))"
  using fold_max_props[where a=a and f=f and ts=ts]
  by (intro Max_eqI[symmetric]) auto

lemma fold_min_eq_Min:
  fixes f :: "'a \<Rightarrow> 'b::linorder"
  shows "fold (\<lambda>t a. min a (f t)) ts a = Min (insert a (f ` set ts))"
  using fold_min_props[where a=a and f=f and ts=ts]
  by (intro Min_eqI[symmetric]) auto

lemma worker_body_Inr:
  assumes "worker_body ctx ids w = Inr r"
  shows "0 \<le> hist_len (timeout ctx)"
    and "measured_phase ids (hist_len (timeout ctx) - 1) (measured_calls w)
           (0, replicate (nat (hist_len (timeout ctx))) 0, Infinity, 0) = Inr r"
  using assms
  by (auto simp: worker_body_def np_zeros_def split: if_splits sum.splits)

lemma run_benchmark_method_Inr:
  assumes "run_benchmark_method ctx ids w = Inr r"
  shows "0 \<le> hist_len (timeout ctx)"
    and "measured_phase ids (hist_len (timeout ctx) - 1) (measured_calls w)
           (0, replicate (nat (hist_len (timeout ctx))) 0, Infinity, 0) = Inr r"
  using assms
  by (auto simp: run_benchmark_method_def Let_def split: if_splits dest: worker_body_Inr)

lemma hist_len_pos: "0 \<le> hist_len tmo \<Longrightarrow> 1 \<le> hist_len tmo"
  unfolding hist_len_def by (cases "\<lceil>tmo\<rceil> < 0") auto

text \<open>What a successful worker returns.\<close>

lemma worker_result:
  assumes "run_benchmark_method ctx ids w = Inr (nq, stats, mn, mx)"
  shows "nq = int (length (measured_calls w))"
    and "sum_list stats = nq"
    and "int (length stats) = hist_len (timeout ctx)"
    and "1 \<le> hist_len (timeout ctx)"
    and "mx = Max (insert 0 ((\<lambda>t. t div 10000) ` set (call_times (measured_calls w))))"
    and "mn = Min (insert Infinity ((\<lambda>t. Finite (t div 10000)) ` set (call_times (measured_calls w))))"
    and "measured_calls w = map Returns (call_times (measured_calls w))"
proof -
  note m = run_benchmark_method_Inr[OF assms]
  show "nq = int (length (measured_calls w))" "sum_list stats = nq"
    "int (length stats) = hist_len (timeout ctx)"
    using measured_phase_counts[OF m(2)] m(1) by (simp_all add: sum_list_replicate)
  show "1 \<le> hist_len (timeout ctx)" using m(1) by (rule hist_len_pos)
  show "mx = Max (insert 0 ((\<lambda>t. t div 10000) ` set (call_times (measured_calls w))))"
    using measured_phase_minmax[OF m(2)] by (simp add: fold_max_eq_Max)
  show "mn = Min (insert Infinity ((\<lambda>t. Finite (t div 10000)) ` set (call_times (measured_calls w))))"
    using measured_phase_minmax[OF m(2)] by (simp add: fold_min_eq_Min)
  show "measured_calls w = map Returns (call_times (measured_calls w))"
    using measured_phase_times[OF m(2)] .
qed

section \<open>Algebra of \<^verbatim>\<open>np.add\<close>\<close>

lemma np_add_same: "length a = length b \<Longrightarrow> np_add a b = Inr (map2 (+) a b)"
  by (simp add: np_add_def)

lemma np_add_left1: "length a = 1 \<Longrightarrow> np_add a b = Inr (map (\<lambda>y. a ! 0 + y) b)"
  by (cases a; cases b) (auto simp: np_add_def)

lemma np_add_right1: "length b = 1 \<Longrightarrow> np_add a b = Inr (map (\<lambda>x. x + b ! 0) a)"
  by (cases b; cases a) (auto simp: np_add_def)

lemma np_add_bad:
  "length a \<noteq> length b \<Longrightarrow> length a \<noteq> 1 \<Longrightarrow> length b \<noteq> 1 \<Longrightarrow> np_add a b = Inl ValueError"
  by (simp add: np_add_def)

lemma np_add_commute: "np_add a b = np_add b a"
proof -
  consider "length a = 1" | "length b = 1" | "length a = length b"
    | "length a \<noteq> length b" "length a \<noteq> 1" "length b \<noteq> 1" by blast
  then show ?thesis
  proof cases
    case 1
    then show ?thesis by (simp add: np_add_left1 np_add_right1 add.commute)
  next
    case 2
    then show ?thesis by (simp add: np_add_left1 np_add_right1 add.commute)
  next
    case 3
    then show ?thesis by (simp add: np_add_same list_eq_iff_nth_eq add.commute)
  next
    case 4
    then show ?thesis by (simp add: np_add_bad)
  qed
qed

lemma add_then_simps [simp]:
  "add_then (Inl e) h = Inl e" "add_then (Inr a) h = np_add a h"
  by (simp_all add: add_then_def)

lemma then_add_simps [simp]:
  "then_add a (Inl e) = Inl e" "then_add a (Inr b) = np_add a b"
  by (simp_all add: then_add_def)

text \<open>The shape of a sum, and its entries.\<close>

lemma np_add_Inr_length:
  "np_add a b = Inr c \<Longrightarrow> length c = (if length a = 1 then length b else length a)"
  by (auto simp: np_add_def split: if_splits)

lemma np_add_Inr_iff:
  "(\<exists>c. np_add a b = Inr c) = (length a = length b \<or> length a = 1 \<or> length b = 1)"
  by (auto simp: np_add_def)

lemma np_add_Inl: "np_add a b = Inl e \<Longrightarrow> e = ValueError"
  by (auto simp: np_add_def split: if_splits)

lemma np_add_Inr_nth:
  assumes "np_add a b = Inr c" and "i < length c"
  shows "c ! i = a ! (if length a = 1 then 0 else i) + b ! (if length b = 1 then 0 else i)"
proof -
  consider "length a = 1" | "length a \<noteq> 1" "length b = 1" | "length a \<noteq> 1" "length b \<noteq> 1" "length a = length b"
    | "length a \<noteq> length b" "length a \<noteq> 1" "length b \<noteq> 1" by blast
  then show ?thesis
  proof cases
    case 1
    with assms show ?thesis by (simp add: np_add_left1 split: if_splits) auto
  next
    case 2
    with assms show ?thesis by (simp add: np_add_right1 split: if_splits) auto
  next
    case 3
    with assms show ?thesis by (simp add: np_add_same) auto
  next
    case 4
    with assms show ?thesis by (simp add: np_add_bad)
  qed
qed

lemma np_add_Inr_bidx:
  "np_add a b = Inr c \<Longrightarrow> i < length c \<Longrightarrow> c ! i = a ! bidx a i + b ! bidx b i"
  by (simp add: np_add_Inr_nth bidx_def)

lemma left_nested_length:
  assumes "np_add a x = Inr ax" "np_add ax y = Inr c"
  shows "length c = (if length a \<noteq> 1 then length a else if length x \<noteq> 1 then length x else length y)"
  using np_add_Inr_length[OF assms(1)] np_add_Inr_length[OF assms(2)]
  by (simp split: if_splits)

lemma right_nested_length:
  assumes "np_add x y = Inr xy" "np_add a xy = Inr c"
  shows "length c = (if length a \<noteq> 1 then length a else if length x \<noteq> 1 then length x else length y)"
  using np_add_Inr_length[OF assms(1)] np_add_Inr_length[OF assms(2)]
  by (simp split: if_splits)

lemma left_nested_nth:
  assumes ax: "np_add a x = Inr ax" and c: "np_add ax y = Inr c" and i: "i < length c"
  shows "c ! i = a ! bidx a i + x ! bidx x i + y ! bidx y i"
proof -
  have lax: "length ax = (if length a = 1 then length x else length a)"
    using ax by (rule np_add_Inr_length)
  have lc: "length c = (if length ax = 1 then length y else length ax)"
    using c by (rule np_add_Inr_length)
  have j: "bidx ax i < length ax"
    using i lc by (simp add: bidx_def split: if_splits)
  have "c ! i = ax ! bidx ax i + y ! bidx y i"
    using c i by (rule np_add_Inr_bidx)
  also have "ax ! bidx ax i = a ! bidx a (bidx ax i) + x ! bidx x (bidx ax i)"
    using ax j by (rule np_add_Inr_bidx)
  also have "bidx a (bidx ax i) = bidx a i"
    using lax by (simp add: bidx_def split: if_splits)
  also have "bidx x (bidx ax i) = bidx x i"
    using lax by (simp add: bidx_def split: if_splits)
  finally show ?thesis .
qed

lemma right_nested_nth:
  assumes xy: "np_add x y = Inr xy" and c: "np_add a xy = Inr c" and i: "i < length c"
  shows "c ! i = a ! bidx a i + x ! bidx x i + y ! bidx y i"
proof -
  have lxy: "length xy = (if length x = 1 then length y else length x)"
    using xy by (rule np_add_Inr_length)
  have lc: "length c = (if length a = 1 then length xy else length a)"
    using c by (rule np_add_Inr_length)
  have ok: "length a = length xy \<or> length a = 1 \<or> length xy = 1"
    using c np_add_Inr_iff[of a xy] by blast
  have j: "bidx xy i < length xy"
    using i lc ok by (auto simp: bidx_def split: if_splits)
  have "c ! i = a ! bidx a i + xy ! bidx xy i"
    using c i by (rule np_add_Inr_bidx)
  also have "xy ! bidx xy i = x ! bidx x (bidx xy i) + y ! bidx y (bidx xy i)"
    using xy j by (rule np_add_Inr_bidx)
  also have "bidx x (bidx xy i) = bidx x i"
    using lxy by (simp add: bidx_def split: if_splits)
  also have "bidx y (bidx xy i) = bidx y i"
    using lxy by (simp add: bidx_def split: if_splits)
  finally show ?thesis by simp
qed

lemma nested_ok_iff:
  "(\<exists>ax c. np_add a x = Inr ax \<and> np_add ax y = Inr c) =
   (\<exists>xy c. np_add x y = Inr xy \<and> np_add a xy = Inr c)"
proof -
  have l: "(\<exists>ax c. np_add a x = Inr ax \<and> np_add ax y = Inr c) =
     ((length a = length x \<or> length a = 1 \<or> length x = 1) \<and>
      ((if length a = 1 then length x else length a) = length y \<or>
       (if length a = 1 then length x else length a) = 1 \<or> length y = 1))"
    (is "?L = ?P")
  proof
    assume ?L
    then obtain ax c where 1: "np_add a x = Inr ax" and 2: "np_add ax y = Inr c" by blast
    from 1 have "length a = length x \<or> length a = 1 \<or> length x = 1"
      using np_add_Inr_iff[of a x] by blast
    moreover from 2 have "length ax = length y \<or> length ax = 1 \<or> length y = 1"
      using np_add_Inr_iff[of ax y] by blast
    ultimately show ?P using np_add_Inr_length[OF 1] by simp
  next
    assume p: ?P
    then obtain ax where 1: "np_add a x = Inr ax"
      using np_add_Inr_iff[of a x] by blast
    with p have "length ax = length y \<or> length ax = 1 \<or> length y = 1"
      using np_add_Inr_length[OF 1] by simp
    then obtain c where "np_add ax y = Inr c"
      using np_add_Inr_iff[of ax y] by blast
    with 1 show ?L by blast
  qed
  have r: "(\<exists>xy c. np_add x y = Inr xy \<and> np_add a xy = Inr c) =
     ((length x = length y \<or> length x = 1 \<or> length y = 1) \<and>
      (length a = (if length x = 1 then length y else length x) \<or> length a = 1 \<or>
       (if length x = 1 then length y else length x) = 1))"
    (is "?R = ?Q")
  proof
    assume ?R
    then obtain xy c where 1: "np_add x y = Inr xy" and 2: "np_add a xy = Inr c" by blast
    from 1 have "length x = length y \<or> length x = 1 \<or> length y = 1"
      using np_add_Inr_iff[of x y] by blast
    moreover from 2 have "length a = length xy \<or> length a = 1 \<or> length xy = 1"
      using np_add_Inr_iff[of a xy] by blast
    ultimately show ?Q using np_add_Inr_length[OF 1] by simp
  next
    assume q: ?Q
    then obtain xy where 1: "np_add x y = Inr xy"
      using np_add_Inr_iff[of x y] by blast
    with q have "length a = length xy \<or> length a = 1 \<or> length xy = 1"
      using np_add_Inr_length[OF 1] by simp
    then obtain c where "np_add a xy = Inr c"
      using np_add_Inr_iff[of a xy] by blast
    with 1 show ?R by blast
  qed
  have "?P = ?Q" by (auto split: if_splits)
  with l r show ?thesis by simp
qed

section \<open>The loop of the aggregator\<close>

lemma add_then_Inr: "(add_then s h = Inr c) = (\<exists>a. s = Inr a \<and> np_add a h = Inr c)"
  by (cases s) auto

lemma then_add_Inr: "(then_add a s = Inr c) = (\<exists>b. s = Inr b \<and> np_add a b = Inr c)"
  by (cases s) auto

lemma add_then_Inl: "add_then s h = Inl e \<Longrightarrow> (\<exists>a. s = Inr a) \<or> s = Inl e"
  by (cases s) auto

lemma nested_error: "add_then (np_add a x) y = Inl e \<Longrightarrow> e = ValueError"
  by (cases "np_add a x") (auto dest: np_add_Inl)

lemma nested_error': "then_add a (np_add x y) = Inl e \<Longrightarrow> e = ValueError"
  by (cases "np_add x y") (auto dest: np_add_Inl)

lemma np_add_assoc: "add_then (np_add a x) y = then_add a (np_add x y)"
proof (cases "add_then (np_add a x) y")
  case (Inl e)
  then have e: "e = ValueError" by (rule nested_error)
  have "\<not> (\<exists>ax c. np_add a x = Inr ax \<and> np_add ax y = Inr c)"
    using Inl by (auto simp: add_then_def)
  then have no: "\<not> (\<exists>xy c. np_add x y = Inr xy \<and> np_add a xy = Inr c)"
    using nested_ok_iff[of a x y] by blast
  show ?thesis
  proof (cases "then_add a (np_add x y)")
    case (Inl e')
    then have "e' = ValueError" by (rule nested_error')
    with Inl \<open>add_then (np_add a x) y = Inl e\<close> e show ?thesis by simp
  next
    case (Inr c)
    with no show ?thesis by (auto simp: then_add_Inr)
  qed
next
  case (Inr c)
  then obtain ax where ax: "np_add a x = Inr ax" and c: "np_add ax y = Inr c"
    by (auto simp: add_then_Inr)
  then have "\<exists>xy c. np_add x y = Inr xy \<and> np_add a xy = Inr c"
    using nested_ok_iff[of a x y] by blast
  then obtain xy c' where xy: "np_add x y = Inr xy" and c': "np_add a xy = Inr c'"
    by blast
  have "length c = length c'"
    using left_nested_length[OF ax c] right_nested_length[OF xy c'] by simp
  moreover have "c ! i = c' ! i" if "i < length c" for i
    using left_nested_nth[OF ax c that] right_nested_nth[OF xy c'] that \<open>length c = length c'\<close>
    by simp
  ultimately have "c = c'" by (simp add: list_eq_iff_nth_eq)
  with Inr xy c' show ?thesis by simp
qed

lemma np_add_right_commute: "add_then (np_add a x) y = add_then (np_add a y) x"
  by (simp add: np_add_assoc np_add_commute[of x y])

lemma raw_proj [simp]:
  "raw_nqueries (nq, stats, mn, mx) = nq"
  "raw_stats (nq, stats, mn, mx) = stats"
  "raw_min (nq, stats, mn, mx) = mn"
  "raw_max (nq, stats, mn, mx) = mx"
  by (simp_all add: raw_nqueries_def raw_stats_def raw_min_def raw_max_def)

lemma agg_loop_eq:
  "agg_loop rs (mn, mx, nq, ls) =
     (case stats_loop (map raw_stats rs) ls of
        Inl e \<Rightarrow> Inl e
      | Inr ls' \<Rightarrow>
          Inr (fold (\<lambda>r a. min a (raw_min r)) rs mn,
               fold (\<lambda>r a. max a (raw_max r)) rs mx,
               nq + sum_list (map raw_nqueries rs),
               ls'))"
proof (induction rs arbitrary: mn mx nq ls)
  case Nil
  then show ?case by simp
next
  case (Cons r rs)
  obtain tn ts tmn tmx where r: "r = (tn, ts, tmn, tmx)" by (cases r) auto
  have m1: "(if tmn < mn then tmn else mn) = min mn tmn" by (auto simp: min_def)
  have m2: "(if tmx > mx then tmx else mx) = max mx tmx" by (auto simp: max_def)
  show ?case
    unfolding r
    by (simp add: Cons.IH m1 m2 add.assoc split: sum.splits option.splits)
qed

lemma agg_results_eq:
  "agg_results rs b q d =
     (case stats_loop (map raw_stats rs) None of
        Inl e \<Rightarrow> Inl e
      | Inr ls \<Rightarrow>
          Inr \<lparr>benchmark = b, queryname = q, nqueries = sum_list (map raw_nqueries rs),
               duration = d,
               min_latency = Min (insert Infinity (raw_min ` set rs)),
               max_latency = Max (insert 0 (raw_max ` set rs)),
               latency_stats = ls\<rparr>)"
  by (simp add: agg_results_def agg_loop_eq fold_min_eq_Min fold_max_eq_Max split: sum.splits)

lemma wrap_simps [simp]: "wrap (Inl e) = Inl e" "wrap (Inr c) = Inr (Some c)"
  by (simp_all add: wrap_def)

lemma stats_step_simps [simp]:
  "stats_step h (Inl e) = Inl e"
  "stats_step h (Inr None) = Inr (Some h)"
  "stats_step h (Inr (Some a)) = wrap (np_add a h)"
  by (simp_all add: stats_step_def)

lemma stats_step_wrap: "stats_step h (wrap s) = wrap (add_then s h)"
  by (cases s) simp_all

lemma fold_stats_step_Inl: "fold stats_step hs (Inl e) = Inl e"
  by (induction hs) simp_all

lemma stats_loop_fold: "stats_loop hs ls = fold stats_step hs (Inr ls)"
proof (induction hs arbitrary: ls)
  case Nil
  then show ?case by simp
next
  case (Cons h hs)
  show ?case
  proof (cases ls)
    case None
    then show ?thesis by (simp add: Cons.IH)
  next
    case (Some a)
    then show ?thesis
      by (cases "np_add a h") (simp_all add: Cons.IH fold_stats_step_Inl)
  qed
qed

lemma stats_step_commute: "stats_step x (stats_step y s) = stats_step y (stats_step x s)"
proof (cases s)
  case (Inl e)
  then show ?thesis by simp
next
  case (Inr ls)
  show ?thesis
  proof (cases ls)
    case None
    with Inr show ?thesis by (simp add: np_add_commute[of x y])
  next
    case (Some a)
    with Inr show ?thesis
      by (simp add: stats_step_wrap np_add_right_commute[of a x y])
  qed
qed

lemma stats_loop_mset: "mset hs = mset hs' \<Longrightarrow> stats_loop hs ls = stats_loop hs' ls"
proof -
  assume m: "mset hs = mset hs'"
  have "fold stats_step hs = fold stats_step hs'"
    by (rule fold_multiset_equiv) (auto simp: fun_eq_iff stats_step_commute m)
  then show ?thesis by (simp add: stats_loop_fold)
qed

lemma agg_results_mset:
  assumes "mset rs = mset rs'"
  shows "agg_results rs b q d = agg_results rs' b q d"
proof -
  have s: "set rs = set rs'" using assms by (rule mset_eq_setD)
  have "mset (map raw_stats rs) = mset (map raw_stats rs')"
    using assms by (metis mset_map)
  then have h: "stats_loop (map raw_stats rs) None = stats_loop (map raw_stats rs') None"
    by (rule stats_loop_mset)
  have "mset (map raw_nqueries rs) = mset (map raw_nqueries rs')"
    using assms by (metis mset_map)
  then have n: "sum_list (map raw_nqueries rs) = sum_list (map raw_nqueries rs')"
    by (metis sum_mset_sum_list)
  show ?thesis by (simp only: agg_results_eq s h n)
qed

text \<open>Regrouping.\<close>

lemma stats_loop_Some:
  "stats_loop hs (Some a) = fold stats_step hs (Inr (Some a))"
  by (rule stats_loop_fold)

lemma stats_loop_append:
  "stats_loop (hs @ hs') ls =
     (case stats_loop hs ls of Inl e \<Rightarrow> Inl e | Inr ls' \<Rightarrow> stats_loop hs' ls')"
  by (cases "stats_loop hs ls") (simp_all add: stats_loop_fold fold_stats_step_Inl)

lemma stats_loop_Some_not_None: "stats_loop hs (Some a) \<noteq> Inr None"
proof (induction hs arbitrary: a)
  case Nil
  then show ?case by simp
next
  case (Cons h hs)
  then show ?case by (cases "np_add a h") simp_all
qed

lemma stats_loop_None_iff: "(stats_loop hs None = Inr None) = (hs = [])"
  by (cases hs) (simp_all add: stats_loop_Some_not_None)

lemma stats_loop_shift:
  "stats_loop hs (Some h) = Inr (Some b) \<Longrightarrow>
   (case np_add a h of Inl e \<Rightarrow> Inl e | Inr c \<Rightarrow> stats_loop hs (Some c)) = wrap (np_add a b)"
proof (induction hs arbitrary: h)
  case Nil
  then show ?case by (cases "np_add a h") simp_all
next
  case (Cons k hs)
  from Cons.prems obtain hk where hk: "np_add h k = Inr hk"
    and rest: "stats_loop hs (Some hk) = Inr (Some b)"
    by (cases "np_add h k") simp_all
  have "(case np_add a h of Inl e \<Rightarrow> Inl e | Inr c \<Rightarrow> stats_loop (k # hs) (Some c)) =
        (case add_then (np_add a h) k of Inl e \<Rightarrow> Inl e | Inr c \<Rightarrow> stats_loop hs (Some c))"
    by (cases "np_add a h") simp_all
  also have "add_then (np_add a h) k = np_add a hk"
    by (simp add: np_add_assoc hk)
  also have "(case np_add a hk of Inl e \<Rightarrow> Inl e | Inr c \<Rightarrow> stats_loop hs (Some c)) =
        wrap (np_add a b)"
    using rest by (rule Cons.IH)
  finally show ?case .
qed

lemma stats_loop_regroup:
  assumes "stats_loop hs1 None = Inr (Some h1)" and "stats_loop hs2 None = Inr (Some h2)"
  shows "stats_loop (hs1 @ hs2) None = stats_loop [h1, h2] None"
proof -
  from assms(2) obtain k ks where hs2: "hs2 = k # ks" and ks: "stats_loop ks (Some k) = Inr (Some h2)"
    by (cases hs2) simp_all
  have "stats_loop (hs1 @ hs2) None = stats_loop hs2 (Some h1)"
    by (simp add: stats_loop_append assms(1))
  also have "\<dots> = (case np_add h1 k of Inl e \<Rightarrow> Inl e | Inr c \<Rightarrow> stats_loop ks (Some c))"
    by (simp add: hs2)
  also have "\<dots> = wrap (np_add h1 h2)" using ks by (rule stats_loop_shift)
  also have "\<dots> = stats_loop [h1, h2] None"
    by (cases "np_add h1 h2") simp_all
  finally show ?thesis .
qed

lemma agg_results_regroup:
  assumes 1: "agg_results rs1 b q d = Inr r1" and 2: "agg_results rs2 b q d = Inr r2"
    and h1: "latency_stats r1 = Some h1" and h2: "latency_stats r2 = Some h2"
  shows "agg_results (rs1 @ rs2) b q d =
         agg_results [(nqueries r1, h1, min_latency r1, max_latency r1),
                      (nqueries r2, h2, min_latency r2, max_latency r2)] b q d"
proof -
  from 1 h1 have s1: "stats_loop (map raw_stats rs1) None = Inr (Some h1)"
    and f1: "nqueries r1 = sum_list (map raw_nqueries rs1)"
       "min_latency r1 = Min (insert Infinity (raw_min ` set rs1))"
       "max_latency r1 = Max (insert 0 (raw_max ` set rs1))"
    by (auto simp: agg_results_eq split: sum.splits)
  from 2 h2 have s2: "stats_loop (map raw_stats rs2) None = Inr (Some h2)"
    and f2: "nqueries r2 = sum_list (map raw_nqueries rs2)"
       "min_latency r2 = Min (insert Infinity (raw_min ` set rs2))"
       "max_latency r2 = Max (insert 0 (raw_max ` set rs2))"
    by (auto simp: agg_results_eq split: sum.splits)
  let ?p = "[(nqueries r1, h1, min_latency r1, max_latency r1),
             (nqueries r2, h2, min_latency r2, max_latency r2)]"
  have st: "stats_loop (map raw_stats (rs1 @ rs2)) None = stats_loop (map raw_stats ?p) None"
    using stats_loop_regroup[OF s1 s2] by simp
  have n: "sum_list (map raw_nqueries (rs1 @ rs2)) = sum_list (map raw_nqueries ?p)"
    by (simp add: f1 f2)
  have "insert Infinity (raw_min ` set (rs1 @ rs2)) =
        insert Infinity (raw_min ` set rs1) \<union> insert Infinity (raw_min ` set rs2)"
    by auto
  moreover have "Min (insert Infinity (raw_min ` set rs1) \<union> insert Infinity (raw_min ` set rs2)) =
        min (min_latency r1) (min_latency r2)"
    unfolding f1 f2 by (rule Min_Un) simp_all
  ultimately have "Min (insert Infinity (raw_min ` set (rs1 @ rs2))) =
        min (min_latency r1) (min_latency r2)"
    by (simp only:)
  moreover have "Min (insert Infinity (raw_min ` set ?p)) = min (min_latency r1) (min_latency r2)"
    by (simp add: min_def)
  ultimately have mn: "Min (insert Infinity (raw_min ` set (rs1 @ rs2))) =
        Min (insert Infinity (raw_min ` set ?p))"
    by (simp only:)
  have "insert 0 (raw_max ` set (rs1 @ rs2)) =
        insert 0 (raw_max ` set rs1) \<union> insert 0 (raw_max ` set rs2)"
    by auto
  moreover have "Max (insert 0 (raw_max ` set rs1) \<union> insert 0 (raw_max ` set rs2)) =
        max (max_latency r1) (max_latency r2)"
    unfolding f1 f2 by (rule Max_Un) simp_all
  ultimately have "Max (insert 0 (raw_max ` set (rs1 @ rs2))) =
        max (max_latency r1) (max_latency r2)"
    by (simp only:)
  moreover have "0 \<le> max_latency r1" unfolding f1 by simp
  then have "Max (insert 0 (raw_max ` set ?p)) = max (max_latency r1) (max_latency r2)"
    by (simp add: max_def)
  ultimately have mx: "Max (insert 0 (raw_max ` set (rs1 @ rs2))) =
        Max (insert 0 (raw_max ` set ?p))"
    by (simp only:)
  show ?thesis
    by (simp only: agg_results_eq st n mn mx)
qed

section \<open>The results of the workers of one run\<close>

lemma sum_list_map2_add:
  "length a = length b \<Longrightarrow> sum_list (map2 (+) a b) = sum_list a + (sum_list b :: int)"
  by (induction a b rule: list_induct2) simp_all

lemma stats_loop_same_length:
  assumes "\<forall>h\<in>set hs. length h = length a"
  shows "\<exists>c. stats_loop hs (Some a) = Inr (Some c) \<and> length c = length a \<and>
             sum_list c = sum_list a + sum_list (map sum_list hs)"
  using assms
proof (induction hs arbitrary: a)
  case Nil
  then show ?case by simp
next
  case (Cons h hs)
  then have l: "length a = length h" by simp
  let ?c = "map2 (+) a h"
  have "\<forall>k\<in>set hs. length k = length ?c" using Cons.prems l by simp
  from Cons.IH[OF this] obtain c where
    "stats_loop hs (Some ?c) = Inr (Some c)" "length c = length ?c"
    "sum_list c = sum_list ?c + sum_list (map sum_list hs)"
    by blast
  then show ?case using l by (simp add: np_add_same sum_list_map2_add)
qed

text \<open>What the results of the workers of one run have in common.\<close>

lemma workers_results:
  assumes "map (run_benchmark_method ctx ids) ws = map Inr rs" and "r \<in> set rs"
  shows "\<exists>w. run_benchmark_method ctx ids w = Inr r"
proof -
  from assms(2) obtain i where i: "i < length rs" "rs ! i = r"
    by (auto simp: in_set_conv_nth)
  from assms(1) have "length ws = length rs" by (metis length_map)
  with i assms(1) have "run_benchmark_method ctx ids (ws ! i) = Inr r"
    by (metis nth_map)
  then show ?thesis ..
qed

lemma worker_invariant:
  assumes "run_benchmark_method ctx ids w = Inr r"
  shows "raw_nqueries r = sum_list (raw_stats r)"
    and "int (length (raw_stats r)) = hist_len (timeout ctx)"
    and "0 \<le> raw_nqueries r" and "0 \<le> raw_max r"
    and "raw_nqueries r = 0 \<Longrightarrow> raw_min r = Infinity \<and> raw_max r = 0"
    and "0 < raw_nqueries r \<Longrightarrow> raw_min r \<le> Finite (raw_max r) \<and> raw_min r \<noteq> Infinity"
proof -
  obtain nq stats mn mx where r: "r = (nq, stats, mn, mx)" by (cases r) auto
  note w = worker_result[OF assms[unfolded r]]
  let ?ts = "call_times (measured_calls w)"
  have len: "length (measured_calls w) = length ?ts"
    using w(7) by (metis length_map)
  show "raw_nqueries r = sum_list (raw_stats r)" using w(2) r by simp
  show "int (length (raw_stats r)) = hist_len (timeout ctx)" using w(3) r by simp
  show "0 \<le> raw_nqueries r" using w(1) r by simp
  show "0 \<le> raw_max r" using w(5) r by simp
  show "raw_min r = Infinity \<and> raw_max r = 0" if "raw_nqueries r = 0"
  proof -
    from that w(1) r len have "?ts = []" by simp
    with w(5,6) r show ?thesis by simp
  qed
  show "raw_min r \<le> Finite (raw_max r) \<and> raw_min r \<noteq> Infinity" if "0 < raw_nqueries r"
  proof -
    from that w(1) r len obtain t where t: "t \<in> set ?ts"
      by (cases ?ts) auto
    have "mn \<le> Finite (t div 10000)" unfolding w(6) by (rule Min_le) (use t in auto)
    moreover have "t div 10000 \<le> mx" unfolding w(5) by (rule Max_ge) (use t in auto)
    ultimately have "mn \<le> Finite mx"
      by (meson less_latency_Finite order_trans)
    moreover from \<open>mn \<le> Finite (t div 10000)\<close> have "mn \<noteq> Infinity" by auto
    ultimately show ?thesis using r by simp
  qed
qed

lemma stats_loop_workers:
  assumes "\<forall>r\<in>set rs. int (length (raw_stats r)) = L" and "rs \<noteq> []"
  shows "\<exists>h. stats_loop (map raw_stats rs) None = Inr (Some h) \<and> int (length h) = L \<and>
             sum_list h = sum_list (map (\<lambda>r. sum_list (raw_stats r)) rs)"
proof -
  from assms(2) obtain r rs' where rs: "rs = r # rs'" by (cases rs) auto
  have "\<forall>h\<in>set (map raw_stats rs'). length h = length (raw_stats r)"
    using assms(1) rs by (auto simp: int_int_eq[symmetric] simp del: int_int_eq of_nat_eq_iff)
  from stats_loop_same_length[OF this] obtain c where
    "stats_loop (map raw_stats rs') (Some (raw_stats r)) = Inr (Some c)"
    "length c = length (raw_stats r)"
    "sum_list c = sum_list (raw_stats r) + sum_list (map sum_list (map raw_stats rs'))"
    by blast
  then show ?thesis using assms(1) rs by (simp add: comp_def)
qed

lemma agg_results_workers:
  assumes ws: "map (run_benchmark_method ctx ids) ws = map Inr rs" and ne: "rs \<noteq> []"
  shows "\<exists>h. agg_results rs b q d =
            Inr \<lparr>benchmark = b, queryname = q, nqueries = sum_list (map raw_nqueries rs),
                 duration = d,
                 min_latency = Min (insert Infinity (raw_min ` set rs)),
                 max_latency = Max (insert 0 (raw_max ` set rs)),
                 latency_stats = Some h\<rparr> \<and>
            int (length h) = hist_len (timeout ctx) \<and>
            sum_list h = sum_list (map raw_nqueries rs)"
proof -
  have inv: "raw_nqueries r = sum_list (raw_stats r)"
       "int (length (raw_stats r)) = hist_len (timeout ctx)" if "r \<in> set rs" for r
    using workers_results[OF ws that] worker_invariant(1,2) by blast+
  then have "\<forall>r\<in>set rs. int (length (raw_stats r)) = hist_len (timeout ctx)" by blast
  from stats_loop_workers[OF this ne] obtain h where
    h: "stats_loop (map raw_stats rs) None = Inr (Some h)"
       "int (length h) = hist_len (timeout ctx)"
       "sum_list h = sum_list (map (\<lambda>r. sum_list (raw_stats r)) rs)"
    by blast
  have "map (\<lambda>r. sum_list (raw_stats r)) rs = map raw_nqueries rs"
    using inv(1) by (simp add: map_eq_conv)
  with h show ?thesis by (simp add: agg_results_eq)
qed

lemma Min_insert_Infinity:
  assumes "finite S" and "S \<noteq> {}"
  shows "Min (insert Infinity S) = Min S"
proof -
  have "Min (insert Infinity S) = min Infinity (Min S)"
    using assms by (rule Min_insert)
  then show ?thesis by (simp add: min_def)
qed

lemma Min_all_Infinity: "\<forall>x\<in>S. x = Infinity \<Longrightarrow> finite S \<Longrightarrow> Min (insert Infinity S) = Infinity"
  by (rule Min_eqI) auto

lemma Max_all_zero: "\<forall>x\<in>S. x = (0::int) \<Longrightarrow> finite S \<Longrightarrow> Max (insert 0 S) = 0"
  by (rule Max_eqI) auto

lemma agg_min_active:
  assumes "\<forall>r\<in>set rs. raw_nqueries r = 0 \<longrightarrow> raw_min r = Infinity"
    and "\<forall>r\<in>set rs. 0 \<le> raw_nqueries r"
  shows "Min (insert Infinity (raw_min ` set rs)) =
         Min (insert Infinity (raw_min ` {r \<in> set rs. 0 < raw_nqueries r}))"
proof -
  have "insert Infinity (raw_min ` set rs) =
        insert Infinity (raw_min ` {r \<in> set rs. 0 < raw_nqueries r})"
  proof (intro equalityI subsetI)
    fix x assume "x \<in> insert Infinity (raw_min ` set rs)"
    then consider "x = Infinity" | r where "r \<in> set rs" "x = raw_min r" by blast
    then show "x \<in> insert Infinity (raw_min ` {r \<in> set rs. 0 < raw_nqueries r})"
    proof cases
      case 1
      then show ?thesis by simp
    next
      case 2
      show ?thesis
      proof (cases "raw_nqueries r = 0")
        case True
        with 2 assms(1) show ?thesis by simp
      next
        case False
        with 2 assms(2) have "0 < raw_nqueries r" by force
        with 2 show ?thesis by blast
      qed
    qed
  next
    fix x assume "x \<in> insert Infinity (raw_min ` {r \<in> set rs. 0 < raw_nqueries r})"
    then show "x \<in> insert Infinity (raw_min ` set rs)" by blast
  qed
  then show ?thesis by simp
qed

lemma agg_max_active:
  assumes "\<forall>r\<in>set rs. raw_nqueries r = 0 \<longrightarrow> raw_max r = 0"
    and "\<forall>r\<in>set rs. 0 \<le> raw_nqueries r"
  shows "Max (insert 0 (raw_max ` set rs)) =
         Max (insert 0 (raw_max ` {r \<in> set rs. 0 < raw_nqueries r}))"
proof -
  have "insert 0 (raw_max ` set rs) =
        insert 0 (raw_max ` {r \<in> set rs. 0 < raw_nqueries r})"
  proof (intro equalityI subsetI)
    fix x assume "x \<in> insert 0 (raw_max ` set rs)"
    then consider "x = 0" | r where "r \<in> set rs" "x = raw_max r" by blast
    then show "x \<in> insert 0 (raw_max ` {r \<in> set rs. 0 < raw_nqueries r})"
    proof cases
      case 1
      then show ?thesis by simp
    next
      case 2
      show ?thesis
      proof (cases "raw_nqueries r = 0")
        case True
        with 2 assms(1) show ?thesis by simp
      next
        case False
        with 2 assms(2) have "0 < raw_nqueries r" by force
        with 2 show ?thesis by blast
      qed
    qed
  next
    fix x assume "x \<in> insert 0 (raw_max ` {r \<in> set rs. 0 < raw_nqueries r})"
    then show "x \<in> insert 0 (raw_max ` set rs)" by blast
  qed
  then show ?thesis by simp
qed

lemma sum_list_filter_pos:
  "\<forall>x\<in>set xs. 0 \<le> f x \<Longrightarrow> sum_list (map f (filter (\<lambda>x. 0 < f x) xs)) = (sum_list (map f xs) :: int)"
  by (induction xs) auto

lemma worlds_of_results:
  "\<forall>r\<in>set xs. \<exists>w. run_benchmark_method ctx ids w = Inr r \<Longrightarrow>
   \<exists>ws. map (run_benchmark_method ctx ids) ws = map Inr xs"
proof (induction xs)
  case Nil
  then show ?case by simp
next
  case (Cons r xs)
  then obtain w ws where "run_benchmark_method ctx ids w = Inr r"
    "map (run_benchmark_method ctx ids) ws = map Inr xs"
    by auto
  then have "map (run_benchmark_method ctx ids) (w # ws) = map Inr (r # xs)" by simp
  then show ?case ..
qed

lemma workers_filter:
  assumes "map (run_benchmark_method ctx ids) ws = map Inr rs"
  shows "\<exists>ws'. map (run_benchmark_method ctx ids) ws' = map Inr (filter P rs)"
proof -
  have "\<forall>r\<in>set (filter P rs). \<exists>w. run_benchmark_method ctx ids w = Inr r"
    using workers_results[OF assms] by auto
  then show ?thesis by (rule worlds_of_results)
qed

lemma sum_list_zero_all:
  "\<forall>x\<in>set xs. 0 \<le> f x \<Longrightarrow> sum_list (map f xs) = (0::int) \<Longrightarrow> \<forall>x\<in>set xs. f x = 0"
proof (induction xs)
  case Nil
  then show ?case by simp
next
  case (Cons x xs)
  then have "0 \<le> f x" by simp
  moreover have "0 \<le> sum_list (map f xs)"
    by (rule sum_list_nonneg) (use Cons.prems(1) in auto)
  ultimately have "0 \<le> f x" "0 \<le> sum_list (map f xs)" by simp_all
  with Cons.prems(2) have "f x = 0" "sum_list (map f xs) = 0" by simp_all
  with Cons show ?case by simp
qed

lemma example_workers:
  "map (run_benchmark_method example_ctx [7::nat]) [busy_worker, idle_worker] =
   map Inr [busy_result, idle_result]"
  by (simp add: run_benchmark_method_def worker_body_def np_zeros_def hist_len_def
      record_call_def np_incr_def)

lemma agg_results_workers_fields:
  assumes "map (run_benchmark_method ctx ids) ws = map Inr rs"
  shows "\<exists>res. agg_results rs b q d = Inr res \<and>
           nqueries res = sum_list (map raw_nqueries rs) \<and>
           min_latency res = Min (insert Infinity (raw_min ` set rs)) \<and>
           max_latency res = Max (insert 0 (raw_max ` set rs))"
proof (cases "rs = []")
  case True
  then show ?thesis by (simp add: agg_results_def)
next
  case False
  from agg_results_workers[OF assms False, of b q d] show ?thesis by auto
qed

lemma spec_bucket_less: "0 < L \<Longrightarrow> spec_bucket L t < nat L"
  by (auto simp: spec_bucket_def min_def)

lemma record_call_nonneg:
  assumes "0 \<le> t" and "0 < length stats"
  shows "record_call (int (length stats) - 1) t (nq, stats, mn, mx) =
           Inr (nq + 1,
                stats[spec_bucket (int (length stats)) t :=
                        stats ! spec_bucket (int (length stats)) t + 1],
                min mn (Finite (t div 10000)), max mx (t div 10000))"
proof -
  let ?L = "int (length stats)"
  let ?r = "t div 10000"
  let ?i = "if ?r > ?L - 1 then ?L - 1 else ?r"
  have r: "0 \<le> ?r" using assms(1) by (simp add: pos_imp_zdiv_nonneg_iff)
  have i: "0 \<le> ?i" "?i < ?L" using r assms(2) by auto
  have b: "nat ?i = spec_bucket ?L t" by (auto simp: spec_bucket_def min_def)
  have "np_incr stats ?i = Inr (stats[nat ?i := stats ! nat ?i + 1])"
    using i by (rule np_incr_in_range)
  then have inc: "np_incr stats ?i =
      Inr (stats[spec_bucket ?L t := stats ! spec_bucket ?L t + 1])"
    by (simp only: b)
  have m1: "(if Finite ?r < mn then Finite ?r else mn) = min mn (Finite ?r)"
    by (auto simp: min_def)
  have m2: "(if ?r > mx then ?r else mx) = max mx ?r" by (auto simp: max_def)
  show ?thesis
    unfolding record_call_def by (simp only: prod.case Let_def inc m1 m2 sum.case)
qed

lemma call_times_mem: "Returns t \<in> set cs \<Longrightarrow> t \<in> set (call_times cs)"
  by (auto simp: call_times_def)

lemma np_incr_mono:
  assumes "np_incr a i = Inr a'" and "k < length a"
  shows "a ! k \<le> a' ! k"
  using assms by (auto simp: np_incr_def Let_def nth_list_update split: if_splits)

lemma record_call_mono:
  assumes "record_call m t (nq, stats, mn, mx) = Inr (nq', stats', mn', mx')"
    and "k < length stats"
  shows "stats ! k \<le> stats' ! k"
  using assms
  by (auto simp: record_call_def Let_def split: sum.splits dest: np_incr_mono)

lemma record_call_beyond:
  assumes "0 < length stats" and "int (length stats) - 1 \<le> t div 10000"
  shows "record_call (int (length stats) - 1) t (nq, stats, mn, mx) =
           Inr (nq + 1, stats[length stats - 1 := stats ! (length stats - 1) + 1],
                min mn (Finite (t div 10000)), max mx (t div 10000))"
proof -
  have "0 < int (length stats)" using assms(1) by simp
  with assms(2) have "0 \<le> t div 10000" by linarith
  then have t: "0 \<le> t" by (simp add: pos_imp_zdiv_nonneg_iff)
  have "spec_bucket (int (length stats)) t = length stats - 1"
    using assms by (auto simp: spec_bucket_def min_def)
  with record_call_nonneg[OF t assms(1), of nq mn mx] show ?thesis by simp
qed

lemma measured_phase_last:
  assumes "measured_phase ids (int (length stats) - 1) cs (nq, stats, mn, mx) =
             Inr (nq', stats', mn', mx')"
    and "0 < length stats"
  shows "last stats +
           int (length (filter (\<lambda>u. int (length stats) - 1 \<le> u div 10000) (call_times cs)))
         \<le> last stats'"
  using assms
proof (induction cs arbitrary: nq stats mn mx)
  case Nil
  then show ?case by simp
next
  case (Cons c cs)
  show ?case
  proof (cases c)
    case Raises
    with Cons.prems show ?thesis by (auto split: if_splits)
  next
    case (Returns t)
    with Cons.prems obtain st where st: "record_call (int (length stats) - 1) t (nq, stats, mn, mx) = Inr st"
      and rest: "measured_phase ids (int (length stats) - 1) cs st = Inr (nq', stats', mn', mx')"
      by (auto split: if_splits sum.splits)
    obtain nq1 stats1 mn1 mx1 where st_eq: "st = (nq1, stats1, mn1, mx1)"
      by (cases st) auto
    have len: "length stats1 = length stats"
      using st st_eq by (auto dest: record_call_Inr(3))
    have pos: "0 < length stats1" using len Cons.prems(2) by simp
    have ne: "stats \<noteq> []" "stats1 \<noteq> []" using Cons.prems(2) pos by simp_all
    have l0: "last stats = stats ! (length stats - 1)" using ne(1) by (rule last_conv_nth)
    have l1: "last stats1 = stats1 ! (length stats1 - 1)" using ne(2) by (rule last_conv_nth)
    note l = l0 l1[unfolded len]
    have step: "last stats + (if int (length stats) - 1 \<le> t div 10000 then 1 else 0) \<le> last stats1"
    proof (cases "int (length stats) - 1 \<le> t div 10000")
      case True
      from record_call_beyond[OF Cons.prems(2) True, of nq mn mx] st st_eq
      have "stats1 = stats[length stats - 1 := stats ! (length stats - 1) + 1]" by simp
      with True l Cons.prems(2) show ?thesis by simp
    next
      case False
      have "stats ! (length stats - 1) \<le> stats1 ! (length stats - 1)"
        using st[unfolded st_eq] by (rule record_call_mono) (use Cons.prems(2) in simp)
      with False l show ?thesis by simp
    qed
    have "last stats1 +
           int (length (filter (\<lambda>u. int (length stats1) - 1 \<le> u div 10000) (call_times cs)))
         \<le> last stats'"
      by (rule Cons.IH[OF _ pos]) (use rest st_eq len in simp)
    with step len Returns show ?thesis by (auto split: if_splits)
  qed
qed

lemma np_add_Inl_iff: "(\<exists>e. np_add a b = Inl e) = incompatible a b"
  by (auto simp: np_add_def incompatible_def)

lemma incompatible_length:
  "length a = length a' \<Longrightarrow> length b = length b' \<Longrightarrow> incompatible a b = incompatible a' b'"
  by (simp add: incompatible_def)

lemma incompatible_one: "length a = 1 \<Longrightarrow> \<not> incompatible a b \<and> \<not> incompatible b a"
  by (simp add: incompatible_def)

lemma incompatible_refl: "\<not> incompatible a a"
  by (simp add: incompatible_def)

lemma stats_loop_Inl: "stats_loop hs ls = Inl e \<Longrightarrow> e = ValueError"
proof (induction hs arbitrary: ls)
  case Nil
  then show ?case by simp
next
  case (Cons h hs)
  show ?case
  proof (cases ls)
    case None
    with Cons show ?thesis by simp
  next
    case (Some a)
    with Cons show ?thesis
      by (cases "np_add a h") (auto dest: np_add_Inl)
  qed
qed

lemma stats_loop_fails_iff:
  "(\<exists>e. stats_loop hs (Some a) = Inl e) =
   (\<exists>x\<in>set (a # hs). \<exists>y\<in>set (a # hs). incompatible x y)"
proof (induction hs arbitrary: a)
  case Nil
  then show ?case by (simp add: incompatible_refl)
next
  case (Cons h hs)
  show ?case
  proof (cases "np_add a h")
    case (Inl e)
    then have "incompatible a h" using np_add_Inl_iff[of a h] by blast
    with Inl show ?thesis by auto
  next
    case (Inr c)
    then have ok: "\<not> incompatible a h" using np_add_Inl_iff[of a h] by auto
    have lc: "length c = (if length a = 1 then length h else length a)"
      using Inr by (rule np_add_Inr_length)
    have "(\<exists>e. stats_loop (h # hs) (Some a) = Inl e) = (\<exists>e. stats_loop hs (Some c) = Inl e)"
      using Inr by simp
    also have "\<dots> = (\<exists>x\<in>set (c # hs). \<exists>y\<in>set (c # hs). incompatible x y)"
      by (rule Cons.IH)
    also have "\<dots> = (\<exists>x\<in>set (a # h # hs). \<exists>y\<in>set (a # h # hs). incompatible x y)"
    proof (cases "length a = 1")
      case True
      then have ch: "length c = length h" using lc by simp
      have a1: "\<not> incompatible a z \<and> \<not> incompatible z a" for z
        using True by (rule incompatible_one)
      have c1: "incompatible c z = incompatible h z" "incompatible z c = incompatible z h" for z
        using ch by (simp_all add: incompatible_def)
      show ?thesis unfolding list.set using a1 c1 incompatible_refl by blast
    next
      case False
      then have ca: "length c = length a" using lc by simp
      have c1: "incompatible c z = incompatible a z" "incompatible z c = incompatible z a" for z
        using ca by (simp_all add: incompatible_def)
      from ok False have "length h = length a \<or> length h = 1"
        by (auto simp: incompatible_def)
      then have h1: "(\<forall>z. incompatible h z = incompatible a z \<and>
                          incompatible z h = incompatible z a) \<or>
                     (\<forall>z. \<not> incompatible h z \<and> \<not> incompatible z h)"
        by (auto simp: incompatible_def)
      show ?thesis unfolding list.set using c1 h1 incompatible_refl by blast
    qed
    finally show ?thesis .
  qed
qed

lemma stats_loop_None_fails_iff:
  "(\<exists>e. stats_loop hs None = Inl e) = (\<exists>x\<in>set hs. \<exists>y\<in>set hs. incompatible x y)"
proof (cases hs)
  case Nil
  then show ?thesis by simp
next
  case (Cons h hs')
  then show ?thesis using stats_loop_fails_iff[of hs' h] by simp
qed

lemma agg_results_Inl_iff:
  "(agg_results rs b q d = Inl e) = (stats_loop (map raw_stats rs) None = Inl e)"
  by (simp add: agg_results_eq split: sum.splits)

lemma print_result_Inl:
  "print_result ctx res = (ls, Inl e) \<Longrightarrow>
   e = ZeroDivisionError \<and> ctx_duration ctx = 0 \<and>
   ls = [Header (benchmark res) (queryname res), Queries (nqueries res)]"
  by (auto simp: print_result_def split: if_splits)

section \<open>The aggregator on the empty collection\<close>

text \<open>
  Claim C10. Given the empty collection of worker results, \<open>agg_results\<close> returns
  normally: the query count is 0, the minimum latency is the infinite sentinel, the
  maximum latency is 0, and the histogram is \<open>None\<close>, not an array of zeros.
\<close>

theorem agg_results_empty:
  "agg_results [] benchname qname dur =
     Inr \<lparr>benchmark = benchname, queryname = qname, nqueries = 0, duration = dur,
          min_latency = Infinity, max_latency = 0, latency_stats = None\<rparr>"
  by (simp add: agg_results_def)

section \<open>Order and grouping of the aggregation\<close>

text \<open>
  Claim C2. Aggregation is commutative and associative. Applying \<open>agg_results\<close> to any
  permutation of a collection of worker results gives the same outcome: the same histogram
  buckets, query count, minimum and maximum latency, and the same error when numpy cannot
  add two of the histograms. Regrouping gives the same outcome as well: aggregating two
  parts separately and then aggregating the two partial results is aggregating the whole
  collection.
\<close>

theorem agg_results_order_and_grouping:
  "(mset rs = mset rs' \<longrightarrow> agg_results rs b q d = agg_results rs' b q d) \<and>
   (agg_results rs1 b q d = Inr r1 \<and> latency_stats r1 = Some h1 \<and>
    agg_results rs2 b q d = Inr r2 \<and> latency_stats r2 = Some h2 \<longrightarrow>
    agg_results (rs1 @ rs2) b q d =
      agg_results [(nqueries r1, h1, min_latency r1, max_latency r1),
                   (nqueries r2, h2, min_latency r2, max_latency r2)] b q d)"
  using agg_results_mset[of rs rs' b q d] agg_results_regroup[of rs1 b q d r1 rs2 r2 h1 h2]
  by blast

theorem agg_results_order_and_grouping_witness:
  "mset [(2::int, [1, 1::int], Finite 3, 7::int), (1, [0, 1], Finite 5, 5),
         (0, [0, 0], Infinity, 0)] =
   mset [(0, [0, 0], Infinity, 0), (1, [0, 1], Finite 5, 5), (2, [1, 1], Finite 3, 7)] \<and>
   agg_results [(2, [1, 1], Finite 3, 7), (1, [0, 1], Finite 5, 5), (0, [0, 0], Infinity, 0)]
      ''bench'' ''query'' 10 =
   agg_results [(0, [0, 0], Infinity, 0), (1, [0, 1], Finite 5, 5), (2, [1, 1], Finite 3, 7)]
      ''bench'' ''query'' 10 \<and>
   agg_results [(2, [1, 1], Finite 3, 7)] ''bench'' ''query'' 10 =
     Inr \<lparr>benchmark = ''bench'', queryname = ''query'', nqueries = 2, duration = 10,
          min_latency = Finite 3, max_latency = 7, latency_stats = Some [1, 1]\<rparr> \<and>
   agg_results [(1, [0, 1], Finite 5, 5), (0, [0, 0], Infinity, 0)] ''bench'' ''query'' 10 =
     Inr \<lparr>benchmark = ''bench'', queryname = ''query'', nqueries = 1, duration = 10,
          min_latency = Finite 5, max_latency = 5, latency_stats = Some [0, 1]\<rparr> \<and>
   agg_results ([(2, [1, 1], Finite 3, 7)] @ [(1, [0, 1], Finite 5, 5), (0, [0, 0], Infinity, 0)])
      ''bench'' ''query'' 10 =
   agg_results [(2, [1, 1], Finite 3, 7), (1, [0, 1], Finite 5, 5)] ''bench'' ''query'' 10 \<and>
   agg_results [(2, [1, 1], Finite 3, 7), (1, [0, 1], Finite 5, 5)] ''bench'' ''query'' 10 =
     Inr \<lparr>benchmark = ''bench'', queryname = ''query'', nqueries = 3, duration = 10,
          min_latency = Finite 3, max_latency = 7, latency_stats = Some [1, 2]\<rparr>"
proof -
  let ?a = "(2, [1, 1], Finite 3, 7) :: raw_worker_result"
  let ?b = "(1, [0, 1], Finite 5, 5) :: raw_worker_result"
  let ?c = "(0, [0, 0], Infinity, 0) :: raw_worker_result"
  have m: "mset [?a, ?b, ?c] = mset [?c, ?b, ?a]" by (simp add: add_mset_commute)
  have r1: "agg_results [?a] ''bench'' ''query'' 10 =
     Inr \<lparr>benchmark = ''bench'', queryname = ''query'', nqueries = 2, duration = 10,
          min_latency = Finite 3, max_latency = 7, latency_stats = Some [1, 1]\<rparr>"
    by (simp add: agg_results_def)
  have r2: "agg_results [?b, ?c] ''bench'' ''query'' 10 =
     Inr \<lparr>benchmark = ''bench'', queryname = ''query'', nqueries = 1, duration = 10,
          min_latency = Finite 5, max_latency = 5, latency_stats = Some [0, 1]\<rparr>"
    by (simp add: agg_results_def np_add_def)
  have r3: "agg_results [?a, ?b] ''bench'' ''query'' 10 =
     Inr \<lparr>benchmark = ''bench'', queryname = ''query'', nqueries = 3, duration = 10,
          min_latency = Finite 3, max_latency = 7, latency_stats = Some [1, 2]\<rparr>"
    by (simp add: agg_results_def np_add_def)
  note t = agg_results_order_and_grouping
             [of "[?a, ?b, ?c]" "[?c, ?b, ?a]" "''bench''" "''query''" 10 "[?a]" _ "[1, 1]"
                 "[?b, ?c]" _ "[0, 1]"]
  from t m have p: "agg_results [?a, ?b, ?c] ''bench'' ''query'' 10 =
      agg_results [?c, ?b, ?a] ''bench'' ''query'' 10"
    by blast
  from conjunct2[OF t[of "\<lparr>benchmark = ''bench'', queryname = ''query'', nqueries = 2, duration = 10,
          min_latency = Finite 3, max_latency = 7, latency_stats = Some [1, 1]\<rparr>"
          "\<lparr>benchmark = ''bench'', queryname = ''query'', nqueries = 1, duration = 10,
          min_latency = Finite 5, max_latency = 5, latency_stats = Some [0, 1]\<rparr>"]] r1 r2
  have g: "agg_results ([?a] @ [?b, ?c]) ''bench'' ''query'' 10 =
      agg_results [?a, ?b] ''bench'' ''query'' 10"
    by simp
  show ?thesis
    by (rule conjI[OF m conjI[OF p conjI[OF r1 conjI[OF r2 conjI[OF g r3]]]]])
qed

section \<open>The query count and the histogram\<close>

text \<open>
  Claim C1. For every result that a worker loop returns, the query count equals the sum
  of the histogram buckets; and aggregating the results of the workers of a run (at least
  one worker) returns a Result whose query count equals the sum of the buckets of its
  histogram.
\<close>

theorem nqueries_eq_histogram_sum:
  assumes "map (run_benchmark_method ctx ids) ws = map Inr rs"
  shows "(\<forall>r\<in>set rs. raw_nqueries r = sum_list (raw_stats r)) \<and>
         (rs \<noteq> [] \<longrightarrow>
            (\<exists>res h. agg_results rs b q d = Inr res \<and> latency_stats res = Some h \<and>
                     nqueries res = sum_list h))"
proof (intro conjI ballI impI)
  fix r assume "r \<in> set rs"
  then show "raw_nqueries r = sum_list (raw_stats r)"
    using workers_results[OF assms] worker_invariant(1) by blast
next
  assume "rs \<noteq> []"
  from agg_results_workers[OF assms this, of b q d] obtain h where
    "agg_results rs b q d =
       Inr \<lparr>benchmark = b, queryname = q, nqueries = sum_list (map raw_nqueries rs),
            duration = d, min_latency = Min (insert Infinity (raw_min ` set rs)),
            max_latency = Max (insert 0 (raw_max ` set rs)), latency_stats = Some h\<rparr>"
    "sum_list h = sum_list (map raw_nqueries rs)"
    by blast
  then show "\<exists>res h. agg_results rs b q d = Inr res \<and> latency_stats res = Some h \<and>
                     nqueries res = sum_list h"
    by simp
qed

theorem nqueries_eq_histogram_sum_witness:
  "map (run_benchmark_method example_ctx [7::nat]) [busy_worker, idle_worker] =
     map Inr [busy_result, idle_result] \<and>
   raw_nqueries busy_result = sum_list (raw_stats busy_result) \<and>
   raw_nqueries idle_result = sum_list (raw_stats idle_result) \<and>
   (\<exists>res h. agg_results [busy_result, idle_result] ''edgedb'' ''get_user'' 1 = Inr res \<and>
       latency_stats res = Some h \<and> nqueries res = sum_list h)"
proof -
  note t = nqueries_eq_histogram_sum[OF example_workers, of "''edgedb''" "''get_user''" 1]
  from t have "\<forall>r\<in>set [busy_result, idle_result]. raw_nqueries r = sum_list (raw_stats r)"
    by (rule conjunct1)
  then have a: "raw_nqueries busy_result = sum_list (raw_stats busy_result)"
    and b: "raw_nqueries idle_result = sum_list (raw_stats idle_result)"
    by simp_all
  from t have c: "\<exists>res h. agg_results [busy_result, idle_result] ''edgedb'' ''get_user'' 1 = Inr res \<and>
       latency_stats res = Some h \<and> nqueries res = sum_list h"
    by blast
  show ?thesis by (rule conjI[OF example_workers conjI[OF a conjI[OF b c]]])
qed

section \<open>Minimum and maximum latency\<close>

text \<open>
  Claim C7. For every result that a worker loop returns and for the Result aggregated
  from the workers of a run: if the query count is positive then the minimum latency is at
  most the maximum latency; if the query count is zero then the minimum latency is the
  infinite sentinel and the maximum latency is zero.
\<close>

theorem latency_bounds_invariant:
  assumes "map (run_benchmark_method ctx ids) ws = map Inr rs"
  shows "(\<forall>r\<in>set rs. (0 < raw_nqueries r \<longrightarrow> raw_min r \<le> Finite (raw_max r)) \<and>
                     (raw_nqueries r = 0 \<longrightarrow> raw_min r = Infinity \<and> raw_max r = 0)) \<and>
         (\<exists>res. agg_results rs b q d = Inr res \<and>
                (0 < nqueries res \<longrightarrow> min_latency res \<le> Finite (max_latency res)) \<and>
                (nqueries res = 0 \<longrightarrow> min_latency res = Infinity \<and> max_latency res = 0))"
proof -
  have inv: "0 \<le> raw_nqueries r"
    "raw_nqueries r = 0 \<Longrightarrow> raw_min r = Infinity \<and> raw_max r = 0"
    "0 < raw_nqueries r \<Longrightarrow> raw_min r \<le> Finite (raw_max r) \<and> raw_min r \<noteq> Infinity"
    if "r \<in> set rs" for r
    using workers_results[OF assms that] worker_invariant(3,5,6) by blast+
  have workers: "\<forall>r\<in>set rs. (0 < raw_nqueries r \<longrightarrow> raw_min r \<le> Finite (raw_max r)) \<and>
                     (raw_nqueries r = 0 \<longrightarrow> raw_min r = Infinity \<and> raw_max r = 0)"
    using inv by blast
  let ?mn = "Min (insert Infinity (raw_min ` set rs))"
  let ?mx = "Max (insert 0 (raw_max ` set rs))"
  let ?n = "sum_list (map raw_nqueries rs)"
  have pos: "?mn \<le> Finite ?mx" if "0 < ?n"
  proof -
    from that obtain r where r: "r \<in> set rs" "0 < raw_nqueries r"
      by (metis (no_types, lifting) sum_list_nonpos imageE list.set_map not_le)
    have "?mn \<le> raw_min r" by (rule Min_le) (use r in auto)
    also have "raw_min r \<le> Finite (raw_max r)" using inv(3)[OF r] by simp
    also have "Finite (raw_max r) \<le> Finite ?mx"
      unfolding less_latency_Finite by (rule Max_ge) (use r in auto)
    finally show ?thesis .
  qed
  have zero: "?mn = Infinity \<and> ?mx = 0" if "?n = 0"
  proof -
    have "\<forall>r\<in>set rs. 0 \<le> raw_nqueries r" using inv(1) by blast
    from sum_list_zero_all[OF this that]
    have "\<forall>r\<in>set rs. raw_nqueries r = 0" .
    with inv(2) have "\<forall>x\<in>raw_min ` set rs. x = Infinity" "\<forall>x\<in>raw_max ` set rs. x = 0"
      by auto
    then show ?thesis by (simp add: Min_all_Infinity Max_all_zero del: Min_insert Max_insert)
  qed
  have "\<exists>res. agg_results rs b q d = Inr res \<and> nqueries res = ?n \<and>
          min_latency res = ?mn \<and> max_latency res = ?mx"
  proof (cases "rs = []")
    case True
    then show ?thesis by (simp add: agg_results_def)
  next
    case False
    from agg_results_workers[OF assms False, of b q d] show ?thesis by auto
  qed
  with pos zero workers show ?thesis by auto
qed

theorem latency_bounds_invariant_witness:
  "map (run_benchmark_method example_ctx [7::nat]) [busy_worker, idle_worker] =
     map Inr [busy_result, idle_result] \<and>
   0 < raw_nqueries busy_result \<and> raw_min busy_result \<le> Finite (raw_max busy_result) \<and>
   raw_nqueries idle_result = 0 \<and> raw_min idle_result = Infinity \<and> raw_max idle_result = 0 \<and>
   (\<exists>res. agg_results [busy_result, idle_result] ''edgedb'' ''get_user'' 1 = Inr res \<and>
      0 < nqueries res \<and> min_latency res \<le> Finite (max_latency res))"
proof -
  note t = latency_bounds_invariant[OF example_workers, of "''edgedb''" "''get_user''" 1]
  have a: "0 < raw_nqueries busy_result" and c: "raw_nqueries idle_result = 0" by simp_all
  from t have "\<forall>r\<in>set [busy_result, idle_result].
      (0 < raw_nqueries r \<longrightarrow> raw_min r \<le> Finite (raw_max r)) \<and>
      (raw_nqueries r = 0 \<longrightarrow> raw_min r = Infinity \<and> raw_max r = 0)"
    by (rule conjunct1)
  then have b: "raw_min busy_result \<le> Finite (raw_max busy_result)"
    and d: "raw_min idle_result = Infinity" and e: "raw_max idle_result = 0"
    by simp_all
  from t obtain res where res: "agg_results [busy_result, idle_result] ''edgedb'' ''get_user'' 1 = Inr res"
    and pos: "0 < nqueries res \<longrightarrow> min_latency res \<le> Finite (max_latency res)"
    by blast
  from res have "nqueries res = 2" by (auto simp: agg_results_eq split: sum.splits)
  with res pos have f: "\<exists>res. agg_results [busy_result, idle_result] ''edgedb'' ''get_user'' 1 = Inr res \<and>
      0 < nqueries res \<and> min_latency res \<le> Finite (max_latency res)"
    by auto
  show ?thesis
    by (rule conjI[OF example_workers conjI[OF a conjI[OF b conjI[OF c conjI[OF d conjI[OF e f]]]]]])
qed

section \<open>What the aggregated Result holds\<close>

text \<open>
  Claim C3. For the workers of a run (at least one), the aggregated Result has a query
  count equal to the sum of the workers' counts, a maximum latency equal to the maximum of
  all the workers' maximum latencies, and a minimum latency equal to the minimum over
  exactly the workers that recorded at least one call (the infinite sentinel when there is
  none). A worker that recorded no call contributes nothing: aggregating only the workers
  with at least one call gives the same count, minimum and maximum.
\<close>

theorem agg_results_count_min_max:
  assumes "map (run_benchmark_method ctx ids) ws = map Inr rs" and "rs \<noteq> []"
  shows "\<exists>res. agg_results rs b q d = Inr res \<and>
           nqueries res = sum_list (map raw_nqueries rs) \<and>
           max_latency res = Max (raw_max ` set rs) \<and>
           min_latency res =
             (if {r \<in> set rs. 0 < raw_nqueries r} = {} then Infinity
              else Min (raw_min ` {r \<in> set rs. 0 < raw_nqueries r})) \<and>
           (\<exists>res'. agg_results (filter (\<lambda>r. 0 < raw_nqueries r) rs) b q d = Inr res' \<and>
                   nqueries res' = nqueries res \<and> min_latency res' = min_latency res \<and>
                   max_latency res' = max_latency res)"
proof -
  let ?act = "{r \<in> set rs. 0 < raw_nqueries r}"
  have inv: "0 \<le> raw_nqueries r" "0 \<le> raw_max r"
    "raw_nqueries r = 0 \<Longrightarrow> raw_min r = Infinity \<and> raw_max r = 0"
    if "r \<in> set rs" for r
    using workers_results[OF assms(1) that] worker_invariant(3,4,5) by blast+
  from agg_results_workers_fields[OF assms(1), of b q d] obtain res where
    res: "agg_results rs b q d = Inr res"
      "nqueries res = sum_list (map raw_nqueries rs)"
      "min_latency res = Min (insert Infinity (raw_min ` set rs))"
      "max_latency res = Max (insert 0 (raw_max ` set rs))"
    by blast
  from workers_filter[OF assms(1), of "\<lambda>r. 0 < raw_nqueries r"] obtain ws' where
    "map (run_benchmark_method ctx ids) ws' = map Inr (filter (\<lambda>r. 0 < raw_nqueries r) rs)"
    by blast
  from agg_results_workers_fields[OF this, of b q d] obtain res' where
    res': "agg_results (filter (\<lambda>r. 0 < raw_nqueries r) rs) b q d = Inr res'"
      "nqueries res' = sum_list (map raw_nqueries (filter (\<lambda>r. 0 < raw_nqueries r) rs))"
      "min_latency res' = Min (insert Infinity (raw_min ` ?act))"
      "max_latency res' = Max (insert 0 (raw_max ` ?act))"
    by auto
  have mx: "Max (insert 0 (raw_max ` set rs)) = Max (raw_max ` set rs)"
  proof -
    from assms(2) obtain r where r: "r \<in> set rs" by (cases rs) auto
    have "Max (insert 0 (raw_max ` set rs)) = max 0 (Max (raw_max ` set rs))"
      by (rule Max_insert) (use r in auto)
    moreover have "raw_max r \<le> Max (raw_max ` set rs)" by (rule Max_ge) (use r in auto)
    with inv(2)[OF r] have "0 \<le> Max (raw_max ` set rs)" by simp
    ultimately show ?thesis by simp
  qed
  have mn: "Min (insert Infinity (raw_min ` set rs)) = Min (insert Infinity (raw_min ` ?act))"
    by (rule agg_min_active) (use inv in blast)+
  have mn': "Min (insert Infinity (raw_min ` ?act)) =
        (if ?act = {} then Infinity else Min (raw_min ` ?act))"
  proof (cases "?act = {}")
    case True
    have "Min (insert Infinity (raw_min ` ?act)) = Min {Infinity}"
      by (simp only: True image_empty)
    also have "\<dots> = Infinity" by simp
    also have "Infinity = (if ?act = {} then Infinity else Min (raw_min ` ?act))"
      using True by (rule if_P[symmetric])
    finally show ?thesis .
  next
    case False
    then have "Min (insert Infinity (raw_min ` ?act)) = Min (raw_min ` ?act)"
      by (intro Min_insert_Infinity) auto
    also have "\<dots> = (if ?act = {} then Infinity else Min (raw_min ` ?act))"
      using False by (rule if_not_P[symmetric])
    finally show ?thesis .
  qed
  have mxa: "Max (insert 0 (raw_max ` set rs)) = Max (insert 0 (raw_max ` ?act))"
    by (rule agg_max_active) (use inv in blast)+
  have n: "sum_list (map raw_nqueries (filter (\<lambda>r. 0 < raw_nqueries r) rs)) =
        sum_list (map raw_nqueries rs)"
    by (rule sum_list_filter_pos) (use inv(1) in blast)
  have "nqueries res' = nqueries res" using res(2) res'(2) n by simp
  moreover have "min_latency res' = min_latency res" using res(3) res'(3) mn by simp
  moreover have "max_latency res' = max_latency res" using res(4) res'(4) mxa by simp
  moreover have "max_latency res = Max (raw_max ` set rs)" using res(4) mx by simp
  moreover have "min_latency res = (if ?act = {} then Infinity else Min (raw_min ` ?act))"
    using res(3) mn mn' by simp
  ultimately show ?thesis using res(1,2) res'(1) by blast
qed

theorem agg_results_count_min_max_witness:
  "map (run_benchmark_method example_ctx [7::nat]) [busy_worker, idle_worker] =
     map Inr [busy_result, idle_result] \<and>
   (\<exists>res. agg_results [busy_result, idle_result] ''edgedb'' ''get_user'' 1 = Inr res \<and>
      nqueries res = sum_list (map raw_nqueries [busy_result, idle_result]) \<and>
      max_latency res = Max (raw_max ` set [busy_result, idle_result]) \<and>
      min_latency res =
        (if {r \<in> set [busy_result, idle_result]. 0 < raw_nqueries r} = {} then Infinity
         else Min (raw_min ` {r \<in> set [busy_result, idle_result]. 0 < raw_nqueries r})) \<and>
      (\<exists>res'. agg_results (filter (\<lambda>r. 0 < raw_nqueries r) [busy_result, idle_result])
                 ''edgedb'' ''get_user'' 1 = Inr res' \<and>
              nqueries res' = nqueries res \<and> min_latency res' = min_latency res \<and>
              max_latency res' = max_latency res))"
proof -
  have ne: "[busy_result, idle_result] \<noteq> []" by simp
  show ?thesis
    by (rule conjI[OF example_workers
          agg_results_count_min_max[OF example_workers ne, of "''edgedb''" "''get_user''" 1]])
qed

section \<open>Recording a latency\<close>

text \<open>
  Claim C4. For every non-negative measured latency of \<open>t\<close> nanoseconds, recording does
  not fail and increments exactly the bucket \<open>min(floor(t / 10000), L - 1)\<close> of a histogram
  of length \<open>L = ceil(timeout) * 100000 + 1\<close>; a latency at or beyond the ceiling is
  counted in the last bucket.
\<close>

theorem record_call_bucket:
  assumes "0 \<le> t" and "np_zeros (hist_len tmo) = Inr h0" and "length stats = length h0"
  shows "int (length stats) = \<lceil>tmo\<rceil> * 100000 + 1 \<and>
         spec_bucket (int (length stats)) t < length stats \<and>
         (\<exists>mn' mx'. record_call (int (length stats) - 1) t (nq, stats, mn, mx) =
            Inr (nq + 1,
                 stats[spec_bucket (int (length stats)) t :=
                         stats ! spec_bucket (int (length stats)) t + 1],
                 mn', mx')) \<and>
         (int (length stats) - 1 \<le> t div 10000 \<longrightarrow>
            spec_bucket (int (length stats)) t = length stats - 1)"
proof -
  from assms(2) have nn: "0 \<le> hist_len tmo" and h0: "h0 = replicate (nat (hist_len tmo)) 0"
    by (auto simp: np_zeros_def split: if_splits)
  from nn have "1 \<le> hist_len tmo" by (rule hist_len_pos)
  with h0 assms(3) have len: "int (length stats) = hist_len tmo" and pos: "0 < length stats"
    by auto
  have 1: "int (length stats) = \<lceil>tmo\<rceil> * 100000 + 1"
    using len by (simp add: hist_len_def)
  have 2: "spec_bucket (int (length stats)) t < length stats"
    using spec_bucket_less[of "int (length stats)" t] pos by simp
  have 3: "\<exists>mn' mx'. record_call (int (length stats) - 1) t (nq, stats, mn, mx) =
            Inr (nq + 1,
                 stats[spec_bucket (int (length stats)) t :=
                         stats ! spec_bucket (int (length stats)) t + 1],
                 mn', mx')"
    using record_call_nonneg[OF assms(1) pos] by blast
  have 4: "int (length stats) - 1 \<le> t div 10000 \<longrightarrow>
            spec_bucket (int (length stats)) t = length stats - 1"
    using pos by (auto simp: spec_bucket_def min_def)
  from 1 2 3 4 show ?thesis by blast
qed

theorem record_call_bucket_witness:
  "(0::int) \<le> 2000000000 \<and> np_zeros (hist_len 1) = Inr (replicate 100001 0) \<and>
   length ((replicate 100001 0)[2 := 1::int]) = length (replicate 100001 (0::int)) \<and>
   int (length ((replicate 100001 0)[2 := 1::int])) = \<lceil>1::rat\<rceil> * 100000 + 1 \<and>
   spec_bucket 100001 2000000000 = 100000 \<and>
   record_call 100000 2000000000 (1, (replicate 100001 0)[2 := 1], Finite 2, 2) =
     Inr (2, (replicate 100001 0)[2 := 1, 100000 := 1], Finite 2, 200000)"
proof -
  have a: "(0::int) \<le> 2000000000" by simp
  have b: "np_zeros (hist_len 1) = Inr (replicate 100001 0)"
    by (simp add: np_zeros_def hist_len_def)
  have c: "length ((replicate 100001 0)[2 := 1::int]) = length (replicate 100001 (0::int))"
    by simp
  note t = record_call_bucket[OF a b c, of 1 "Finite 2" 2]
  from t have d: "int (length ((replicate 100001 0)[2 := 1::int])) = \<lceil>1::rat\<rceil> * 100000 + 1"
    by (rule conjunct1)
  have e: "spec_bucket 100001 2000000000 = 100000" by (simp add: spec_bucket_def)
  have f: "record_call 100000 2000000000 (1, (replicate 100001 0)[2 := 1], Finite 2, 2) =
     Inr (2, (replicate 100001 0)[2 := 1, 100000 := 1], Finite 2, 200000)"
    by (simp add: record_call_def np_incr_def)
  show ?thesis by (rule conjI[OF a conjI[OF b conjI[OF c conjI[OF d conjI[OF e f]]]]])
qed

section \<open>The maximum latency and the overflow bucket\<close>

text \<open>
  Claim C9. A measured call whose latency, in units of 10 microseconds, is at or beyond
  the highest bucket index is counted in the last bucket, while the maximum latency is
  taken from the latency as measured: the loop body puts \<open>max mx (t div 10000)\<close> into
  \<open>max_latency\<close> and increments bucket \<open>L - 1\<close>. So the worker reports as maximum
  latency the largest unclamped latency of its calls, which is at least the highest bucket
  index and may exceed it, and its last bucket counts every such call.
\<close>

theorem max_latency_unclamped:
  "(0 < length stats \<and> int (length stats) - 1 \<le> t div 10000 \<longrightarrow>
      record_call (int (length stats) - 1) t (nq, stats, mn, mx) =
        Inr (nq + 1, stats[length stats - 1 := stats ! (length stats - 1) + 1],
             min mn (Finite (t div 10000)), max mx (t div 10000))) \<and>
   (run_benchmark_method ctx ids w = Inr (nq', stats', mn', mx') \<and>
    Returns t \<in> set (measured_calls w) \<and> hist_len (timeout ctx) - 1 \<le> t div 10000 \<longrightarrow>
      t div 10000 \<le> mx' \<and> int (length stats') - 1 \<le> mx' \<and>
      mx' = Max ((\<lambda>u. u div 10000) ` set (call_times (measured_calls w))) \<and>
      int (length (filter (\<lambda>u. hist_len (timeout ctx) - 1 \<le> u div 10000)
                     (call_times (measured_calls w)))) \<le> last stats')"
proof (intro conjI impI)
  assume "0 < length stats \<and> int (length stats) - 1 \<le> t div 10000"
  then show "record_call (int (length stats) - 1) t (nq, stats, mn, mx) =
        Inr (nq + 1, stats[length stats - 1 := stats ! (length stats - 1) + 1],
             min mn (Finite (t div 10000)), max mx (t div 10000))"
    using record_call_beyond by blast
next
  assume a: "run_benchmark_method ctx ids w = Inr (nq', stats', mn', mx') \<and>
    Returns t \<in> set (measured_calls w) \<and> hist_len (timeout ctx) - 1 \<le> t div 10000"
  then have run: "run_benchmark_method ctx ids w = Inr (nq', stats', mn', mx')"
    and t: "t \<in> set (call_times (measured_calls w))"
    and beyond: "hist_len (timeout ctx) - 1 \<le> t div 10000"
    by (auto intro: call_times_mem)
  let ?ts = "call_times (measured_calls w)"
  let ?S = "(\<lambda>u. u div 10000) ` set ?ts"
  note wr = worker_result[OF run]
  note m = run_benchmark_method_Inr[OF run]
  have tS: "t div 10000 \<in> ?S" using t by blast
  have ge: "t div 10000 \<le> Max ?S" by (rule Max_ge) (use tS in auto)
  have nonneg: "0 \<le> t div 10000" using beyond wr(4) by simp
  have "Max (insert 0 ?S) = max 0 (Max ?S)" by (rule Max_insert) (use tS in auto)
  with ge nonneg have mx: "mx' = Max ?S" using wr(5) by simp
  show "t div 10000 \<le> mx'" using ge mx by simp
  show "int (length stats') - 1 \<le> mx'" using ge mx beyond wr(3) by simp
  show "mx' = Max ?S" by (rule mx)
  let ?z = "replicate (nat (hist_len (timeout ctx))) (0::int)"
  have lz: "int (length ?z) = hist_len (timeout ctx)" "0 < length ?z"
    using wr(4) by simp_all
  have "measured_phase ids (int (length ?z) - 1) (measured_calls w) (0, ?z, Infinity, 0) =
          Inr (nq', stats', mn', mx')"
    using m(2) lz(1) by simp
  from measured_phase_last[OF this lz(2)]
  have "last ?z + int (length (filter (\<lambda>u. hist_len (timeout ctx) - 1 \<le> u div 10000) ?ts))
          \<le> last stats'"
    by (simp only: lz(1))
  moreover have "last ?z = 0" using lz(2) by (simp add: last_conv_nth)
  ultimately show "int (length (filter (\<lambda>u. hist_len (timeout ctx) - 1 \<le> u div 10000) ?ts))
          \<le> last stats'"
    by simp
qed

theorem max_latency_unclamped_witness:
  "(0 < length ((replicate 100001 0)[2 := 1::int]) \<and>
    int (length ((replicate 100001 0)[2 := 1::int])) - 1 \<le> 2000000000 div 10000) \<and>
   record_call (int (length ((replicate 100001 0)[2 := 1::int])) - 1) 2000000000
       (1, (replicate 100001 0)[2 := 1], Finite 2, 2) =
     Inr (1 + 1,
          ((replicate 100001 0)[2 := 1])
            [length ((replicate 100001 0)[2 := 1::int]) - 1 :=
               (replicate 100001 0)[2 := 1] ! (length ((replicate 100001 0)[2 := 1::int]) - 1) + 1],
          min (Finite 2) (Finite (2000000000 div 10000)), max 2 (2000000000 div 10000)) \<and>
   (run_benchmark_method example_ctx [7::nat] busy_worker = Inr busy_result \<and>
    Returns 2000000000 \<in> set (measured_calls busy_worker) \<and>
    hist_len (timeout example_ctx) - 1 \<le> 2000000000 div 10000) \<and>
   2000000000 div 10000 \<le> (200000::int) \<and>
   int (length ((replicate 100001 0)[2 := 1, 100000 := 1::int])) - 1 \<le> 200000 \<and>
   200000 = Max ((\<lambda>u. u div 10000) ` set (call_times (measured_calls busy_worker))) \<and>
   int (length (filter (\<lambda>u. hist_len (timeout example_ctx) - 1 \<le> u div 10000)
                  (call_times (measured_calls busy_worker))))
     \<le> last ((replicate 100001 0)[2 := 1, 100000 := 1::int]) \<and>
   int (length ((replicate 100001 0)[2 := 1, 100000 := 1::int])) - 1 < 200000"
proof -
  note t = max_latency_unclamped
    [where stats = "(replicate 100001 0)[2 := 1]" and t = 2000000000 and nq = 1
       and mn = "Finite 2" and mx = 2 and ctx = example_ctx and ids = "[7::nat]"
       and w = busy_worker and nq' = 2 and stats' = "(replicate 100001 0)[2 := 1, 100000 := 1]"
       and mn' = "Finite 2" and mx' = 200000]
  have p1: "0 < length ((replicate 100001 0)[2 := 1::int]) \<and>
    int (length ((replicate 100001 0)[2 := 1::int])) - 1 \<le> 2000000000 div 10000"
    by simp
  have run: "run_benchmark_method example_ctx [7::nat] busy_worker = Inr busy_result"
    by (simp add: run_benchmark_method_def worker_body_def np_zeros_def hist_len_def
        record_call_def np_incr_def)
  have mem: "Returns 2000000000 \<in> set (measured_calls busy_worker)" by simp
  have bey: "hist_len (timeout example_ctx) - 1 \<le> 2000000000 div 10000"
    by (simp add: hist_len_def)
  note p2 = conjI[OF run conjI[OF mem bey]]
  note c1 = conjunct1[OF t, THEN mp, OF p1]
  note c2 = conjunct2[OF t, THEN mp, OF p2]
  have c3: "int (length ((replicate 100001 0)[2 := 1, 100000 := 1::int])) - 1 < 200000"
    by simp
  show ?thesis
    by (rule conjI[OF p1 conjI[OF c1 conjI[OF p2 conjI[OF conjunct1[OF c2]
          conjI[OF conjunct1[OF conjunct2[OF c2]]
            conjI[OF conjunct1[OF conjunct2[OF conjunct2[OF c2]]]
              conjI[OF conjunct2[OF conjunct2[OF conjunct2[OF c2]]] c3]]]]]]])
qed

section \<open>Merging two histograms\<close>

text \<open>
  Claim C5, as the code has it. Merging two histograms of identical length \<open>L\<close> returns a
  new histogram of length \<open>L\<close> whose bucket \<open>i\<close> is the sum of the two inputs' buckets \<open>i\<close>.
  Merging two histograms of differing lengths fails with numpy's \<open>ValueError\<close>, and
  \<open>agg_results\<close> returns no Result, when neither length is one; a histogram of length one is
  broadcast instead: its single count is added to every bucket of the other.
\<close>

theorem np_add_lengths:
  "(length a = length b \<longrightarrow>
      (\<exists>c. np_add a b = Inr c \<and> length c = length a \<and>
           (\<forall>i<length a. c ! i = a ! i + b ! i))) \<and>
   (length a \<noteq> length b \<and> length a \<noteq> 1 \<and> length b \<noteq> 1 \<longrightarrow>
      np_add a b = Inl ValueError \<and>
      agg_results [(na, a, ma, xa), (nb, b, mb, xb)] benchname qname dur = Inl ValueError) \<and>
   (length a \<noteq> length b \<and> length b = 1 \<longrightarrow>
      (\<exists>c. np_add a b = Inr c \<and> length c = length a \<and>
           (\<forall>i<length a. c ! i = a ! i + b ! 0))) \<and>
   (length a \<noteq> length b \<and> length a = 1 \<longrightarrow>
      (\<exists>c. np_add a b = Inr c \<and> length c = length b \<and>
           (\<forall>i<length b. c ! i = a ! 0 + b ! i)))"
proof (intro conjI impI)
  assume "length a = length b"
  then show "\<exists>c. np_add a b = Inr c \<and> length c = length a \<and>
           (\<forall>i<length a. c ! i = a ! i + b ! i)"
    by (simp add: np_add_same)
next
  assume bad: "length a \<noteq> length b \<and> length a \<noteq> 1 \<and> length b \<noteq> 1"
  then show "np_add a b = Inl ValueError" by (simp add: np_add_bad)
  then show "agg_results [(na, a, ma, xa), (nb, b, mb, xb)] benchname qname dur = Inl ValueError"
    by (simp add: agg_results_def)
next
  assume "length a \<noteq> length b \<and> length b = 1"
  then show "\<exists>c. np_add a b = Inr c \<and> length c = length a \<and>
           (\<forall>i<length a. c ! i = a ! i + b ! 0)"
    by (simp add: np_add_right1)
next
  assume "length a \<noteq> length b \<and> length a = 1"
  then show "\<exists>c. np_add a b = Inr c \<and> length c = length b \<and>
           (\<forall>i<length b. c ! i = a ! 0 + b ! i)"
    by (simp add: np_add_left1)
qed

theorem np_add_lengths_witness:
  "(length (replicate 100 (0::int)) \<noteq> length (replicate 101 (0::int)) \<and>
    length (replicate 100 (0::int)) \<noteq> 1 \<and> length (replicate 101 (0::int)) \<noteq> 1) \<and>
   np_add (replicate 100 0) (replicate 101 0) = Inl ValueError \<and>
   agg_results [(0, replicate 100 0, Infinity, 0), (0, replicate 101 0, Infinity, 0)]
      ''edgedb'' ''get_user'' 1 = Inl ValueError \<and>
   length [1, 2::int] = length [3, 4::int] \<and>
   (\<exists>c. np_add [1, 2] [3, 4] = Inr c \<and> length c = length [1, 2::int] \<and>
        c ! 0 = [1, 2] ! 0 + [3, 4] ! 0 \<and> c ! 1 = [1, 2] ! 1 + [3, 4] ! 1) \<and>
   (length [1, 2::int] \<noteq> length [5::int] \<and> length [5::int] = 1) \<and>
   (\<exists>c. np_add [1, 2] [5] = Inr c \<and> length c = length [1, 2::int] \<and>
        c ! 0 = [1, 2] ! 0 + [5] ! 0 \<and> c ! 1 = [1, 2] ! 1 + [5] ! 0)"
proof -
  have p1: "length (replicate 100 (0::int)) \<noteq> length (replicate 101 (0::int)) \<and>
    length (replicate 100 (0::int)) \<noteq> 1 \<and> length (replicate 101 (0::int)) \<noteq> 1"
    by simp
  note t1 = np_add_lengths[where a = "replicate 100 0" and b = "replicate 101 0" and na = 0
      and ma = Infinity and xa = 0 and nb = 0 and mb = Infinity and xb = 0
      and benchname = "''edgedb''" and qname = "''get_user''" and dur = 1]
  note c1 = conjunct1[OF conjunct2[OF t1], THEN mp, OF p1]
  have p2: "length [1, 2::int] = length [3, 4::int]" by simp
  note t2 = np_add_lengths[where a = "[1, 2]" and b = "[3, 4]"]
  from conjunct1[OF t2, THEN mp, OF p2]
  have c2: "\<exists>c. np_add [1, 2] [3, 4] = Inr c \<and> length c = length [1, 2::int] \<and>
        c ! 0 = [1, 2] ! 0 + [3, 4] ! 0 \<and> c ! 1 = [1, 2] ! 1 + [3, 4] ! 1"
    by auto
  have p3: "length [1, 2::int] \<noteq> length [5::int] \<and> length [5::int] = 1" by simp
  note t3 = np_add_lengths[where a = "[1, 2]" and b = "[5]"]
  from conjunct1[OF conjunct2[OF conjunct2[OF t3]], THEN mp, OF p3]
  have c3: "\<exists>c. np_add [1, 2] [5] = Inr c \<and> length c = length [1, 2::int] \<and>
        c ! 0 = [1, 2] ! 0 + [5] ! 0 \<and> c ! 1 = [1, 2] ! 1 + [5] ! 0"
    by auto
  show ?thesis
    by (rule conjI[OF p1 conjI[OF conjunct1[OF c1] conjI[OF conjunct2[OF c1]
          conjI[OF p2 conjI[OF c2 conjI[OF p3 c3]]]]]])
qed

text \<open>
  The claim as the specification states it, that any two histograms of differing lengths
  fail to merge, does not hold: lengths 1 and 2 merge, in \<open>np_add\<close> and in \<open>agg_results\<close>.
\<close>

theorem np_add_mismatch_counterexample:
  "length [1::int] \<noteq> length [1, 2::int] \<and>
   np_add [1] [1, 2] = Inr [2, 3] \<and>
   agg_results [(1, [1], Finite 0, 0), (3, [1, 2], Finite 0, 1)] ''edgedb'' ''get_user'' 1 =
     Inr \<lparr>benchmark = ''edgedb'', queryname = ''get_user'', nqueries = 4, duration = 1,
          min_latency = Finite 0, max_latency = 1, latency_stats = Some [2, 3]\<rparr>"
  by (simp add: np_add_def agg_results_def)

section \<open>When the aggregator fails\<close>

text \<open>
  Claim C6, as the code has it. The aggregator does not fail on the empty collection (it
  returns the Result of claim C10) and signals no NoResults condition. It fails if and
  only if two of the histograms it is given have lengths that numpy cannot add (different,
  and neither equal to one); the error is \<open>ValueError\<close>, and the collection is then not
  empty.
\<close>

theorem agg_results_fails_iff:
  "((\<exists>e. agg_results rs benchname qname dur = Inl e) =
      (\<exists>x\<in>set rs. \<exists>y\<in>set rs. incompatible (raw_stats x) (raw_stats y))) \<and>
   (agg_results rs benchname qname dur = Inl e \<longrightarrow> e = ValueError \<and> rs \<noteq> [])"
proof
  have "(\<exists>e. agg_results rs benchname qname dur = Inl e) =
        (\<exists>e. stats_loop (map raw_stats rs) None = Inl e)"
    by (simp add: agg_results_Inl_iff)
  also have "\<dots> = (\<exists>x\<in>set (map raw_stats rs). \<exists>y\<in>set (map raw_stats rs). incompatible x y)"
    by (rule stats_loop_None_fails_iff)
  also have "\<dots> = (\<exists>x\<in>set rs. \<exists>y\<in>set rs. incompatible (raw_stats x) (raw_stats y))"
    by simp
  finally show "(\<exists>e. agg_results rs benchname qname dur = Inl e) =
      (\<exists>x\<in>set rs. \<exists>y\<in>set rs. incompatible (raw_stats x) (raw_stats y))" .
  show "agg_results rs benchname qname dur = Inl e \<longrightarrow> e = ValueError \<and> rs \<noteq> []"
  proof
    assume "agg_results rs benchname qname dur = Inl e"
    then have l: "stats_loop (map raw_stats rs) None = Inl e"
      by (simp add: agg_results_Inl_iff)
    then have "e = ValueError" by (rule stats_loop_Inl)
    moreover from l have "rs \<noteq> []" by auto
    ultimately show "e = ValueError \<and> rs \<noteq> []" ..
  qed
qed

theorem agg_results_fails_iff_witness:
  "(\<exists>e. agg_results [(0, [0, 0], Infinity, 0), (0, [0, 0, 0], Infinity, 0)]
          ''edgedb'' ''get_user'' 1 = Inl e) \<and>
   agg_results [(0, [0, 0], Infinity, 0), (0, [0, 0, 0], Infinity, 0)]
      ''edgedb'' ''get_user'' 1 = Inl ValueError \<and>
   incompatible (raw_stats (0, [0, 0], Infinity, 0)) (raw_stats (0, [0, 0, 0], Infinity, 0)) \<and>
   [(0::int, [0, 0::int], Infinity, 0::int), (0, [0, 0, 0], Infinity, 0)] \<noteq> []"
proof -
  let ?rs = "[(0, [0, 0], Infinity, 0), (0, [0, 0, 0], Infinity, 0)] :: raw_worker_result list"
  note t = agg_results_fails_iff[where rs = ?rs and benchname = "''edgedb''"
      and qname = "''get_user''" and dur = 1 and e = ValueError]
  have i: "incompatible (raw_stats (0, [0, 0], Infinity, 0)) (raw_stats (0, [0, 0, 0], Infinity, 0))"
    by (simp add: incompatible_def)
  then have "\<exists>x\<in>set ?rs. \<exists>y\<in>set ?rs. incompatible (raw_stats x) (raw_stats y)"
    by simp
  with conjunct1[OF t] have f: "\<exists>e. agg_results ?rs ''edgedb'' ''get_user'' 1 = Inl e"
    by (simp only:)
  have v: "agg_results ?rs ''edgedb'' ''get_user'' 1 = Inl ValueError"
    by (simp add: agg_results_def np_add_def)
  note c = conjunct2[OF t, THEN mp, OF v]
  show ?thesis by (rule conjI[OF f conjI[OF v conjI[OF i conjunct2[OF c]]]])
qed

text \<open>
  The claim as the specification states it, that the aggregator fails exactly on the empty
  collection, does not hold in either direction: the empty collection gives a Result, and
  a collection of two histograms of lengths 2 and 3 fails.
\<close>

theorem agg_results_empty_counterexample:
  "agg_results [] ''edgedb'' ''get_user'' 1 =
     Inr \<lparr>benchmark = ''edgedb'', queryname = ''get_user'', nqueries = 0, duration = 1,
          min_latency = Infinity, max_latency = 0, latency_stats = None\<rparr> \<and>
   agg_results [(0, [0, 0], Infinity, 0), (0, [0, 0, 0], Infinity, 0)]
      ''edgedb'' ''get_user'' 1 = Inl ValueError"
  by (simp add: agg_results_def np_add_def)

section \<open>A failure of reporting\<close>

text \<open>
  Claim C8, as the code has it. Nothing in \<open>run_sync\<close> catches an exception. If
  \<open>print_result\<close> fails on a completed Result, the failure leaves the loop over the query
  names: \<open>run_sync\<close> ends with that error, returns no list of results, and no later query
  name is dispatched. A failure during the measurement of a query ends the run in the same
  way. \<open>print_result\<close> itself fails when \<open>ctx.duration\<close> is zero, with
  \<open>ZeroDivisionError\<close>, after its first two lines.
\<close>

theorem reporting_failure_aborts:
  "(run_benchmark_sync ctx benchname (ctx_duration ctx) ids q (W k) = Inr res \<and>
    print_result ctx res = (ls, Inl e) \<longrightarrow>
      run_queries ctx benchname ids W k (q # qs) (out, results) =
        (out @ Dispatched q # map Printed ls, Inl e) \<and>
      e = ZeroDivisionError \<and> ctx_duration ctx = 0) \<and>
   (run_benchmark_sync ctx benchname (ctx_duration ctx) ids q (W k) = Inl e \<longrightarrow>
      run_queries ctx benchname ids W k (q # qs) (out, results) =
        (out @ [Dispatched q], Inl e)) \<and>
   (\<not> boot_connect_raises world \<and> \<not> load_ids_raises world \<and> \<not> boot_close_raises world \<and>
    queries ctx = q # qs \<and>
    run_benchmark_sync ctx benchname (ctx_duration ctx) (loaded_ids world) q (workers world 0) =
      Inr res \<and>
    print_result ctx res = (ls, Inl e) \<longrightarrow>
      run_sync ctx benchname world = (Dispatched q # map Printed ls, Inl e))"
proof (intro conjI impI)
  assume a: "run_benchmark_sync ctx benchname (ctx_duration ctx) ids q (W k) = Inr res \<and>
    print_result ctx res = (ls, Inl e)"
  then show "run_queries ctx benchname ids W k (q # qs) (out, results) =
        (out @ Dispatched q # map Printed ls, Inl e)"
    by simp
  from a show "e = ZeroDivisionError" "ctx_duration ctx = 0"
    by (auto dest: print_result_Inl)
next
  assume "run_benchmark_sync ctx benchname (ctx_duration ctx) ids q (W k) = Inl e"
  then show "run_queries ctx benchname ids W k (q # qs) (out, results) =
        (out @ [Dispatched q], Inl e)"
    by simp
next
  assume "\<not> boot_connect_raises world \<and> \<not> load_ids_raises world \<and> \<not> boot_close_raises world \<and>
    queries ctx = q # qs \<and>
    run_benchmark_sync ctx benchname (ctx_duration ctx) (loaded_ids world) q (workers world 0) =
      Inr res \<and>
    print_result ctx res = (ls, Inl e)"
  then show "run_sync ctx benchname world = (Dispatched q # map Printed ls, Inl e)"
    by (simp add: run_sync_def)
qed

theorem reporting_failure_aborts_witness:
  "(run_benchmark_sync
      \<lparr>concurrency = 1, warmup_time = 0, ctx_duration = 0, timeout = 1,
       queries = [''get_user'', ''get_movie'']\<rparr>
      ''edgedb'' 0 [''get_user'' \<mapsto> [7::nat], ''get_movie'' \<mapsto> [7]] ''get_user''
      (\<lambda>i. idle_worker) =
      Inr \<lparr>benchmark = ''edgedb'', queryname = ''get_user'', nqueries = 0, duration = 0,
           min_latency = Infinity, max_latency = 0,
           latency_stats = Some (replicate 100001 0)\<rparr> \<and>
    print_result
      \<lparr>concurrency = 1, warmup_time = 0, ctx_duration = 0, timeout = 1,
       queries = [''get_user'', ''get_movie'']\<rparr>
      \<lparr>benchmark = ''edgedb'', queryname = ''get_user'', nqueries = 0, duration = 0,
       min_latency = Infinity, max_latency = 0, latency_stats = Some (replicate 100001 0)\<rparr> =
      ([Header ''edgedb'' ''get_user'', Queries 0], Inl ZeroDivisionError)) \<and>
   run_queries
      \<lparr>concurrency = 1, warmup_time = 0, ctx_duration = 0, timeout = 1,
       queries = [''get_user'', ''get_movie'']\<rparr>
      ''edgedb'' [''get_user'' \<mapsto> [7::nat], ''get_movie'' \<mapsto> [7]] (\<lambda>k i. idle_worker) 0
      (''get_user'' # [''get_movie'']) ([], []) =
     ([] @ Dispatched ''get_user'' #
        map Printed [Header ''edgedb'' ''get_user'', Queries 0], Inl ZeroDivisionError)"
proof -
  let ?ctx = "\<lparr>concurrency = 1, warmup_time = 0, ctx_duration = 0, timeout = 1,
       queries = [''get_user'', ''get_movie'']\<rparr>"
  let ?ids = "[''get_user'' \<mapsto> [7::nat], ''get_movie'' \<mapsto> [7]]"
  let ?res = "\<lparr>benchmark = ''edgedb'', queryname = ''get_user'', nqueries = 0, duration = 0,
       min_latency = Infinity, max_latency = 0, latency_stats = Some (replicate 100001 0)\<rparr>"
  have m: "run_benchmark_sync ?ctx ''edgedb'' 0 ?ids ''get_user'' (\<lambda>i. idle_worker) = Inr ?res"
    by (simp add: run_benchmark_sync_def run_benchmark_method_def worker_body_def
        np_zeros_def hist_len_def agg_results_def)
  have p: "print_result ?ctx ?res =
      ([Header ''edgedb'' ''get_user'', Queries 0], Inl ZeroDivisionError)"
    by (simp add: print_result_def)
  note t = reporting_failure_aborts[where ctx = ?ctx and benchname = "''edgedb''" and ids = ?ids
      and q = "''get_user''" and W = "\<lambda>k i. idle_worker" and k = 0 and res = ?res
      and ls = "[Header ''edgedb'' ''get_user'', Queries 0]" and e = ZeroDivisionError
      and qs = "[''get_movie'']" and out = "[]" and results = "[]"]
  have h: "run_benchmark_sync ?ctx ''edgedb'' (ctx_duration ?ctx) ?ids ''get_user''
             ((\<lambda>k i. idle_worker) 0) = Inr ?res \<and>
           print_result ?ctx ?res =
             ([Header ''edgedb'' ''get_user'', Queries 0], Inl ZeroDivisionError)"
    using m p by simp
  note c = conjunct1[OF conjunct1[OF t, THEN mp, OF h]]
  show ?thesis by (rule conjI[OF conjI[OF m p] c])
qed

text \<open>
  The claim as the specification states it, that the runner goes on to the next query name
  after a failure of reporting, does not hold: with two query names and a duration of
  zero, the second query name is never dispatched.
\<close>

theorem reporting_failure_counterexample:
  "print_result
     \<lparr>concurrency = 1, warmup_time = 0, ctx_duration = 0, timeout = 1,
      queries = [''get_user'', ''get_movie'']\<rparr>
     \<lparr>benchmark = ''edgedb'', queryname = ''get_user'', nqueries = 0, duration = 0,
      min_latency = Infinity, max_latency = 0, latency_stats = Some (replicate 100001 0)\<rparr> =
     ([Header ''edgedb'' ''get_user'', Queries 0], Inl ZeroDivisionError) \<and>
   run_sync
     \<lparr>concurrency = 1, warmup_time = 0, ctx_duration = 0, timeout = 1,
      queries = [''get_user'', ''get_movie'']\<rparr>
     ''edgedb''
     \<lparr>boot_connect_raises = False, load_ids_raises = False, boot_close_raises = False,
      loaded_ids = [''get_user'' \<mapsto> [7::nat], ''get_movie'' \<mapsto> [7]],
      workers = (\<lambda>k i. idle_worker)\<rparr> =
     ([Dispatched ''get_user'', Printed (Header ''edgedb'' ''get_user''), Printed (Queries 0)],
      Inl ZeroDivisionError)"
  by (simp add: run_sync_def run_benchmark_sync_def run_benchmark_method_def worker_body_def
      np_zeros_def hist_len_def agg_results_def print_result_def)

end
